theory Spec2Isabelle
  imports Complex_Main "HOL-Library.Signed_Division"
begin

section \<open>Double-precision values\<close>

text \<open>
  Go's \<^verbatim>\<open>float64\<close> is IEEE 754 binary64.  A value is a NaN, a signed infinity, or a
  signed finite number \<open>Fin s m e\<close> standing for \<open>(-1)^s * m * 2^e\<close> with \<open>m \<ge> 0\<close>; the two zeros are
  \<open>Fin False 0 _\<close> and \<open>Fin True 0 _\<close>.  NaN payloads are not told apart.  Every
  operation rounds its exact result to nearest, ties to even, with 53 significant bits,
  gradual underflow below \<open>2^-1022\<close> and overflow to infinity from \<open>2^1024\<close> on; each
  operation is rounded on its own (no fused multiply-add).
\<close>

datatype float64 = Fin bool int int | Infty bool | NaN

fun is_zero :: "float64 \<Rightarrow> bool" where
  "is_zero (Fin s m e) = (m = 0)"
| "is_zero (Infty s) = False"
| "is_zero NaN = False"

fun is_nan :: "float64 \<Rightarrow> bool" where
  "is_nan NaN = True"
| "is_nan (Fin s m e) = False"
| "is_nan (Infty s) = False"

fun is_finite :: "float64 \<Rightarrow> bool" where
  "is_finite (Fin s m e) = True"
| "is_finite (Infty s) = False"
| "is_finite NaN = False"

text \<open>\<open>pow2 k\<close> is \<open>2^k\<close> for \<open>k \<ge> 0\<close>; \<open>bitlen m\<close> is the number of binary digits of \<open>m\<close>.\<close>

function pow2 :: "int \<Rightarrow> int" where
  "pow2 k = (if k \<le> 0 then 1 else 2 * pow2 (k - 1))"
  by pat_completeness auto
termination
  by (relation "measure nat") auto

function bitlen :: "int \<Rightarrow> int" where
  "bitlen m = (if m \<le> 0 then 0 else 1 + bitlen (m div 2))"
  by pat_completeness auto
termination
  by (relation "measure nat") auto

declare pow2.simps [simp del] bitlen.simps [simp del]

text \<open>\<open>round64 s m e\<close> is the binary64 value nearest to \<open>(-1)^s * m * 2^e\<close>, for \<open>m > 0\<close>.\<close>

definition round64 :: "bool \<Rightarrow> int \<Rightarrow> int \<Rightarrow> float64" where
  "round64 s m e =
     (let q = max (e + bitlen m - 53) (- 1074) in
      if q \<le> e then
        (if 971 < q then Infty s else Fin s (m * pow2 (e - q)) q)
      else
        (let d = pow2 (q - e);
             t = m div d;
             r = m mod d;
             t' = (if d < 2 * r \<or> (2 * r = d \<and> odd t) then t + 1 else t);
             q' = (if t' = pow2 53 then q + 1 else q);
             t'' = (if t' = pow2 53 then pow2 52 else t')
         in if 971 < q' then Infty s else Fin s t'' q'))"

definition signed :: "bool \<Rightarrow> int \<Rightarrow> int" where
  "signed s m = (if s then - m else m)"

text \<open>The product \<^verbatim>\<open>x * y\<close>.\<close>

fun fmul :: "float64 \<Rightarrow> float64 \<Rightarrow> float64" where
  "fmul NaN y = NaN"
| "fmul (Infty s) NaN = NaN"
| "fmul (Fin s m e) NaN = NaN"
| "fmul (Infty s) (Infty t) = Infty (s \<noteq> t)"
| "fmul (Infty s) (Fin t n f) = (if n = 0 then NaN else Infty (s \<noteq> t))"
| "fmul (Fin s m e) (Infty t) = (if m = 0 then NaN else Infty (s \<noteq> t))"
| "fmul (Fin s m e) (Fin t n f) =
     (if m = 0 \<or> n = 0 then Fin (s \<noteq> t) 0 0 else round64 (s \<noteq> t) (m * n) (e + f))"

text \<open>The sum \<^verbatim>\<open>x + y\<close>.\<close>

fun fadd :: "float64 \<Rightarrow> float64 \<Rightarrow> float64" where
  "fadd NaN y = NaN"
| "fadd (Infty s) NaN = NaN"
| "fadd (Fin s m e) NaN = NaN"
| "fadd (Infty s) (Infty t) = (if s = t then Infty s else NaN)"
| "fadd (Infty s) (Fin t n f) = Infty s"
| "fadd (Fin s m e) (Infty t) = Infty t"
| "fadd (Fin s m e) (Fin t n f) =
     (if m = 0 \<and> n = 0 then Fin (s \<and> t) 0 0
      else if m = 0 then Fin t n f
      else if n = 0 then Fin s m e
      else (let g = min e f;
                z = signed s (m * pow2 (e - g)) + signed t (n * pow2 (f - g))
            in if z = 0 then Fin False 0 0 else round64 (z < 0) \<bar>z\<bar> g))"

text \<open>The comparison \<^verbatim>\<open>x == y\<close>: false on a NaN, true on the two zeros.\<close>

fun feq :: "float64 \<Rightarrow> float64 \<Rightarrow> bool" where
  "feq NaN y = False"
| "feq (Infty s) NaN = False"
| "feq (Fin s m e) NaN = False"
| "feq (Infty s) (Infty t) = (s = t)"
| "feq (Infty s) (Fin t n f) = False"
| "feq (Fin s m e) (Infty t) = False"
| "feq (Fin s m e) (Fin t n f) =
     (let g = min e f
      in signed s (m * pow2 (e - g)) = signed t (n * pow2 (f - g)))"

text \<open>The float64 value of an integer literal, and the constants \<^verbatim>\<open>0\<close> and \<^verbatim>\<open>1\<close>.\<close>

definition f64 :: "int \<Rightarrow> float64" where
  "f64 z = (if z = 0 then Fin False 0 0 else round64 (z < 0) \<bar>z\<bar> 0)"

definition fzero :: float64 where
  "fzero = Fin False 0 0"

definition fone :: float64 where
  "fone = Fin False 1 0"

text \<open>
  Two values are the same number when they are identical or both are a zero: the only
  difference \<open>same_num\<close> ignores is the sign of a zero.
\<close>

definition same_num :: "float64 \<Rightarrow> float64 \<Rightarrow> bool" where
  "same_num x y = (x = y \<or> (is_zero x \<and> is_zero y))"

section \<open>Memory, slices and matrix views\<close>

text \<open>
  The three operands are slices into memory that the caller owns.  Memory is a map from
  addresses (in units of one float64) to values; a slice is a pointer with a length and a
  capacity, as in Go.  A slice expression \<^verbatim>\<open>s[lo:hi]\<close> and an index \<^verbatim>\<open>s[i]\<close> panic out
  of range.  Go's \<^verbatim>\<open>int\<close> is modelled by \<open>int\<close>: the sizes that pass the entry checks
  index existing memory, which has fewer than \<open>2^63\<close> elements.
\<close>

type_synonym heap = "int \<Rightarrow> float64"

record slice =
  ptr :: int
  len :: int
  cap :: int

datatype error =
    DimensionError | ShapeError | InvalidFlagError
  | SliceBounds | IndexOutOfRange | Panic string

type_synonym outcome = "error option \<times> heap"

definition reslice :: "slice \<Rightarrow> int \<Rightarrow> int \<Rightarrow> error + slice" where
  "reslice s lo hi =
     (if 0 \<le> lo \<and> lo \<le> hi \<and> hi \<le> cap s
      then Inr \<lparr>ptr = ptr s + lo, len = hi - lo, cap = cap s - lo\<rparr>
      else Inl SliceBounds)"

text \<open>
  \<open>with_value r f\<close> goes on with the value of \<open>r\<close>, or panics with its error and leaves memory
  as it is.
\<close>

definition with_value :: "error + 'a \<Rightarrow> ('a \<Rightarrow> heap \<Rightarrow> outcome) \<Rightarrow> heap \<Rightarrow> outcome" where
  "with_value r f h = (case r of Inl e \<Rightarrow> (Some e, h) | Inr s \<Rightarrow> f s h)"

text \<open>\<^verbatim>\<open>s[j] += x\<close> and \<^verbatim>\<open>s[j] *= x\<close>.\<close>

definition add_at :: "slice \<Rightarrow> int \<Rightarrow> float64 \<Rightarrow> heap \<Rightarrow> outcome" where
  "add_at s j x h =
     (if 0 \<le> j \<and> j < len s then (None, h(ptr s + j := fadd (h (ptr s + j)) x))
      else (Some IndexOutOfRange, h))"

definition mul_at :: "slice \<Rightarrow> int \<Rightarrow> float64 \<Rightarrow> heap \<Rightarrow> outcome" where
  "mul_at s j x h =
     (if 0 \<le> j \<and> j < len s then (None, h(ptr s + j := fmul (h (ptr s + j)) x))
      else (Some IndexOutOfRange, h))"

text \<open>Sequencing, and a loop over a list of indices; both stop at the first panic.\<close>

definition then_do :: "outcome \<Rightarrow> (heap \<Rightarrow> outcome) \<Rightarrow> outcome" where
  "then_do r f = (case fst r of None \<Rightarrow> f (snd r) | Some e \<Rightarrow> r)"

fun for_each :: "'i list \<Rightarrow> ('i \<Rightarrow> heap \<Rightarrow> outcome) \<Rightarrow> heap \<Rightarrow> outcome" where
  "for_each [] f h = (None, h)"
| "for_each (x # xs) f h = then_do (f x h) (for_each xs f)"

record general =
  data :: slice
  rows :: int
  cols :: int
  stride :: int

text \<open>
  Modelled from the spec: the constant \<^verbatim>\<open>debug\<close> of the package is declared outside the
  file at hand; the spec describes the release build, in which the consistency
  assertions of the views and kernels are switched off.
\<close>

definition debug :: bool where
  "debug = False"

text \<open>
  Modelled from the spec: \<^verbatim>\<open>general.check\<close> is declared outside the file at hand.  The
  spec requires non-negative sizes, a stride no smaller than the column count, and a
  buffer of at least \<open>(rows - 1) * stride + cols\<close> elements.
\<close>

definition check :: "general \<Rightarrow> error option" where
  "check g =
     (if rows g < 0 then Some DimensionError
      else if cols g < 0 then Some DimensionError
      else if stride g < cols g then Some DimensionError
      else if len (data g) < (rows g - 1) * stride g + cols g then Some ShapeError
      else None)"

text \<open>
  Modelled from the spec: \<^verbatim>\<open>general.view\<close> is declared outside the file at hand.  The
  sub-view shares the buffer, starts at \<open>(i, j)\<close>, has \<open>r\<close> rows and \<open>c\<close> columns and the
  parent's stride; its extent is checked against the parent's in debug builds only.
\<close>

definition view :: "general \<Rightarrow> int \<Rightarrow> int \<Rightarrow> int \<Rightarrow> int \<Rightarrow> error + general" where
  "view g i j r c =
     (if debug \<and> (i < 0 \<or> rows g < i + r \<or> j < 0 \<or> cols g < j + c) then Inl ShapeError
      else case reslice (data g) (i * stride g + j) ((i + r - 1) * stride g + j + c) of
             Inl e \<Rightarrow> Inl e
           | Inr d \<Rightarrow> Inr \<lparr>data = d, rows = r, cols = c, stride = stride g\<rparr>)"

section \<open>The serial kernels\<close>

definition dgemmSerialNotNot :: "general \<Rightarrow> general \<Rightarrow> general \<Rightarrow> float64 \<Rightarrow> heap \<Rightarrow> outcome" where
  "dgemmSerialNotNot a b c alpha h =
     (if debug \<and> cols a \<noteq> rows b then (Some (Panic ''inner dimension mismatch''), h)
      else if debug \<and> rows a \<noteq> rows c then (Some (Panic ''outer dimension mismatch''), h)
      else if debug \<and> cols b \<noteq> cols c then (Some (Panic ''outer dimension mismatch''), h)
      else
        for_each [0..rows a - 1] (\<lambda>i.
          with_value (reslice (data c) (i * stride c) (i * stride c + cols c)) (\<lambda>ctmp.
          with_value (reslice (data a) (i * stride a) (i * stride a + cols a)) (\<lambda>arow.
            for_each [0..len arow - 1] (\<lambda>l h.
              let v = h (ptr arow + l); tmp = fmul alpha v in
              if \<not> feq tmp fzero then
                with_value (reslice (data b) (l * stride b) (l * stride b + cols b)) (\<lambda>brow.
                  for_each [0..len brow - 1] (\<lambda>j h.
                    let w = h (ptr brow + j) in add_at ctmp j (fmul tmp w) h)) h
              else (None, h))))) h)"

definition dgemmSerialTransNot :: "general \<Rightarrow> general \<Rightarrow> general \<Rightarrow> float64 \<Rightarrow> heap \<Rightarrow> outcome" where
  "dgemmSerialTransNot a b c alpha h =
     (if debug \<and> rows a \<noteq> rows b then (Some (Panic ''inner dimension mismatch''), h)
      else if debug \<and> cols a \<noteq> rows c then (Some (Panic ''outer dimension mismatch''), h)
      else if debug \<and> cols b \<noteq> cols c then (Some (Panic ''outer dimension mismatch''), h)
      else
        for_each [0..rows a - 1] (\<lambda>l.
          with_value (reslice (data b) (l * stride b) (l * stride b + cols b)) (\<lambda>btmp.
          with_value (reslice (data a) (l * stride a) (l * stride a + cols a)) (\<lambda>arow.
            for_each [0..len arow - 1] (\<lambda>i h.
              let v = h (ptr arow + i); tmp = fmul alpha v in
              with_value (reslice (data c) (i * stride c) (i * stride c + cols c)) (\<lambda>ctmp h.
                if \<not> feq tmp fzero then
                  for_each [0..len btmp - 1] (\<lambda>j h.
                    let w = h (ptr btmp + j) in add_at ctmp j (fmul tmp w) h) h
                else (None, h)) h)))) h)"

text \<open>The inner loop of the third kernel: \<^verbatim>\<open>tmp += atmp[l] * v\<close> for \<open>v\<close> ranging over a row of b.\<close>

fun dot :: "slice \<Rightarrow> slice \<Rightarrow> int list \<Rightarrow> float64 \<Rightarrow> heap \<Rightarrow> error + float64" where
  "dot atmp brow [] tmp h = Inr tmp"
| "dot atmp brow (l # ls) tmp h =
     (let v = h (ptr brow + l) in
      if 0 \<le> l \<and> l < len atmp
      then dot atmp brow ls (fadd tmp (fmul (h (ptr atmp + l)) v)) h
      else Inl IndexOutOfRange)"

definition dgemmSerialNotTrans :: "general \<Rightarrow> general \<Rightarrow> general \<Rightarrow> float64 \<Rightarrow> heap \<Rightarrow> outcome" where
  "dgemmSerialNotTrans a b c alpha h =
     (if debug \<and> cols a \<noteq> cols b then (Some (Panic ''inner dimension mismatch''), h)
      else if debug \<and> rows a \<noteq> rows c then (Some (Panic ''outer dimension mismatch''), h)
      else if debug \<and> rows b \<noteq> cols c then (Some (Panic ''outer dimension mismatch''), h)
      else
        for_each [0..rows a - 1] (\<lambda>i.
          with_value (reslice (data a) (i * stride a) (i * stride a + cols a)) (\<lambda>atmp.
          with_value (reslice (data c) (i * stride c) (i * stride c + cols c)) (\<lambda>ctmp.
            for_each [0..rows b - 1] (\<lambda>j.
              with_value (reslice (data b) (j * stride b) (j * stride b + cols b)) (\<lambda>brow h.
                with_value (dot atmp brow [0..len brow - 1] fzero h) (\<lambda>tmp.
                  add_at ctmp j (fmul alpha tmp)) h))))) h)"

definition dgemmSerialTransTrans :: "general \<Rightarrow> general \<Rightarrow> general \<Rightarrow> float64 \<Rightarrow> heap \<Rightarrow> outcome" where
  "dgemmSerialTransTrans a b c alpha h =
     (if debug \<and> rows a \<noteq> cols b then (Some (Panic ''inner dimension mismatch''), h)
      else if debug \<and> cols a \<noteq> rows c then (Some (Panic ''outer dimension mismatch''), h)
      else if debug \<and> rows b \<noteq> cols c then (Some (Panic ''outer dimension mismatch''), h)
      else
        for_each [0..rows a - 1] (\<lambda>l.
          with_value (reslice (data a) (l * stride a) (l * stride a + cols a)) (\<lambda>arow.
            for_each [0..len arow - 1] (\<lambda>i h.
              let v = h (ptr arow + i) in
              with_value (reslice (data c) (i * stride c) (i * stride c + cols c)) (\<lambda>ctmp h.
                if \<not> feq v fzero then
                  (let tmp = fmul alpha v in
                   for_each [0..rows b - 1] (\<lambda>j h.
                     if 0 \<le> j * stride b + l \<and> j * stride b + l < len (data b)
                     then add_at ctmp j (fmul tmp (h (ptr (data b) + (j * stride b + l)))) h
                     else (Some IndexOutOfRange, h)) h)
                else (None, h)) h))) h)"

text \<open>
  The transpose flags of package \<^verbatim>\<open>blas\<close>.  The entry point accepts \<^verbatim>\<open>NoTrans\<close> and \<^verbatim>\<open>Trans\<close>;
  \<open>ConjTrans\<close> stands for every other value of the flag type.
\<close>

datatype Transpose = NoTrans | Trans | ConjTrans

definition dgemmSerial ::
  "Transpose \<Rightarrow> Transpose \<Rightarrow> general \<Rightarrow> general \<Rightarrow> general \<Rightarrow> float64 \<Rightarrow> heap \<Rightarrow> outcome" where
  "dgemmSerial tA tB a b c alpha h =
     (if tA = NoTrans \<and> tB = NoTrans then dgemmSerialNotNot a b c alpha h
      else if tA = Trans \<and> tB = NoTrans then dgemmSerialTransNot a b c alpha h
      else if tA = NoTrans \<and> tB = Trans then dgemmSerialNotTrans a b c alpha h
      else if tA = Trans \<and> tB = Trans then dgemmSerialTransTrans a b c alpha h
      else (Some (Panic ''unreachable''), h))"

section \<open>Block planning and the tiled path\<close>

definition blockSize :: int where
  "blockSize = 64"

definition minParBlock :: int where
  "minParBlock = 4"

text \<open>Go's \<^verbatim>\<open>/\<close> and \<^verbatim>\<open>%\<close> on \<^verbatim>\<open>int\<close> truncate towards zero: \<open>sdiv\<close> and \<open>smod\<close>.\<close>

definition numBlocks :: "int \<Rightarrow> int" where
  "numBlocks d = (if d smod blockSize \<noteq> 0 then d sdiv blockSize + 1 else d sdiv blockSize)"

definition computeNumBlocks :: "general \<Rightarrow> general \<Rightarrow> bool \<Rightarrow> bool \<Rightarrow> int \<times> int" where
  "computeNumBlocks a b aTrans bTrans =
     (let aRowBlocks = numBlocks (rows a);
          aColBlocks = numBlocks (cols a);
          bRowBlocks = numBlocks (rows b);
          bColBlocks = numBlocks (cols b)
      in if \<not> aTrans \<and> \<not> bTrans then (cols a, aRowBlocks * bColBlocks)
         else if aTrans \<and> \<not> bTrans then (rows a, aColBlocks * bColBlocks)
         else if \<not> aTrans \<and> bTrans then (cols a, aRowBlocks * bRowBlocks)
         else (rows a, aColBlocks * bRowBlocks))"

text \<open>The index sequence of \<^verbatim>\<open>for i := i0; i < n; i += blockSize\<close>.\<close>

function block_starts :: "int \<Rightarrow> int \<Rightarrow> int list" where
  "block_starts i n = (if i < n then i # block_starts (i + blockSize) n else [])"
  by pat_completeness auto
termination
  by (relation "measure (\<lambda>(i, n). nat (n - i))") (auto simp: blockSize_def)

declare block_starts.simps [simp del]

datatype subMul = SubMul int int

text \<open>The tasks in the order in which the caller sends them.\<close>

definition tile_tasks :: "general \<Rightarrow> subMul list" where
  "tile_tasks c =
     concat (map (\<lambda>i. map (\<lambda>j. SubMul i j) (block_starts 0 (cols c))) (block_starts 0 (rows c)))"

text \<open>What a worker does with one task.\<close>

fun tile_worker ::
  "Transpose \<Rightarrow> Transpose \<Rightarrow> general \<Rightarrow> general \<Rightarrow> general \<Rightarrow> float64 \<Rightarrow> int \<Rightarrow> subMul \<Rightarrow>
   heap \<Rightarrow> outcome" where
  "tile_worker tA tB a b c alpha maxKLen (SubMul i j) h =
     (let aTrans = (tA = Trans);
          bTrans = (tB = Trans);
          crows = rows c;
          ccols = cols c;
          leni = (if i + blockSize > crows then crows - i else blockSize);
          lenj = (if j + blockSize > ccols then ccols - j else blockSize)
      in with_value (view c i j leni lenj) (\<lambda>cSub.
           for_each (block_starts 0 maxKLen) (\<lambda>k.
             let lenk = (if k + blockSize > maxKLen then maxKLen - k else blockSize) in
             with_value (if aTrans then view a k i lenk leni else view a i k leni lenk) (\<lambda>aSub.
             with_value (if bTrans then view b j k lenj lenk else view b k j lenk lenj) (\<lambda>bSub.
               dgemmSerial tA tB aSub bSub cSub alpha)))) h)"

text \<open>
  The workers take the tasks from the channel concurrently; the tiles of two tasks are
  disjoint, so the model runs the tasks one after the other in the order sent.  The
  number of workers and the capacity of the channel do not enter the result and are left
  out.
\<close>

definition dgemmParallel ::
  "Transpose \<Rightarrow> Transpose \<Rightarrow> general \<Rightarrow> general \<Rightarrow> general \<Rightarrow> float64 \<Rightarrow> heap \<Rightarrow> outcome" where
  "dgemmParallel tA tB a b c alpha h =
     (let aTrans = (tA = Trans);
          bTrans = (tB = Trans);
          maxKLen = fst (computeNumBlocks a b aTrans bTrans);
          parBlocks = snd (computeNumBlocks a b aTrans bTrans)
      in if parBlocks < minParBlock then dgemmSerial tA tB a b c alpha h
         else for_each (tile_tasks c) (tile_worker tA tB a b c alpha maxKLen) h)"

section \<open>The entry point\<close>

definition scale_c :: "general \<Rightarrow> int \<Rightarrow> float64 \<Rightarrow> heap \<Rightarrow> outcome" where
  "scale_c cmat m beta h =
     for_each [0..m - 1] (\<lambda>i.
       with_value (reslice (data cmat) (i * stride cmat) (i * stride cmat + cols cmat)) (\<lambda>ctmp.
         for_each [0..len ctmp - 1] (\<lambda>j. mul_at ctmp j beta))) h"

definition Dgemm ::
  "Transpose \<Rightarrow> Transpose \<Rightarrow> int \<Rightarrow> int \<Rightarrow> int \<Rightarrow> float64 \<Rightarrow> slice \<Rightarrow> int \<Rightarrow> slice \<Rightarrow> int \<Rightarrow>
   float64 \<Rightarrow> slice \<Rightarrow> int \<Rightarrow> heap \<Rightarrow> outcome" where
  "Dgemm tA tB m n k alpha a lda b ldb beta c ldc h =
     (let amat = (if tA = Trans then \<lparr>data = a, rows = k, cols = m, stride = lda\<rparr>
                  else \<lparr>data = a, rows = m, cols = k, stride = lda\<rparr>)
      in if check amat \<noteq> None then (check amat, h) else
     (let bmat = (if tB = Trans then \<lparr>data = b, rows = n, cols = k, stride = ldb\<rparr>
                  else \<lparr>data = b, rows = k, cols = n, stride = ldb\<rparr>)
      in if check bmat \<noteq> None then (check bmat, h) else
     (let cmat = \<lparr>data = c, rows = m, cols = n, stride = ldc\<rparr>
      in if check cmat \<noteq> None then (check cmat, h)
         else if tA \<noteq> Trans \<and> tA \<noteq> NoTrans then (Some InvalidFlagError, h)
         else if tB \<noteq> Trans \<and> tB \<noteq> NoTrans then (Some InvalidFlagError, h)
         else then_do (if \<not> feq beta fone then scale_c cmat m beta h else (None, h))
                (dgemmParallel tA tB amat bmat cmat alpha))))"

section \<open>Vocabulary of the properties\<close>

text \<open>A zero of either sign, or NaN: the possible values of \<open>0 * x\<close>.\<close>

definition zero_or_nan :: "float64 \<Rightarrow> bool" where
  "zero_or_nan x \<longleftrightarrow> is_zero x \<or> is_nan x"

text \<open>\<open>approx x y\<close>: \<open>y\<close> is the same number as \<open>x\<close>, or \<open>y\<close> is NaN.\<close>

definition approx :: "float64 \<Rightarrow> float64 \<Rightarrow> bool" where
  "approx x y \<longleftrightarrow> same_num x y \<or> is_nan y"

text \<open>The memory cells of the logical rows by cols region of a view.\<close>

definition region :: "general \<Rightarrow> int set" where
  "region g = {ptr (data g) + i * stride g + j | i j. 0 \<le> i \<and> i < rows g \<and> 0 \<le> j \<and> j < cols g}"

text \<open>
  A view that passes the check, over a slice whose length is within its capacity (as
  every Go slice is).
\<close>

definition well_formed :: "general \<Rightarrow> bool" where
  "well_formed g \<longleftrightarrow> check g = None \<and> len (data g) \<le> cap (data g)"

text \<open>The values that a kernel called with \<open>alpha\<close> can add to an element of C.\<close>

definition terms :: "float64 \<Rightarrow> float64 set" where
  "terms alpha = {fmul (fmul alpha v) w | v w. True} \<union> {fmul alpha t | t. True}"

text \<open>
  \<open>reach W X h h'\<close>: memory \<open>h'\<close> comes from \<open>h\<close> by finitely many steps \<^verbatim>\<open>c[q] += x\<close> with the
  cell \<open>q\<close> in \<open>W\<close> and the value \<open>x\<close> in \<open>X\<close>.  \<open>ok W X h r\<close>: the outcome \<open>r\<close> is a normal
  return with such a memory.
\<close>

inductive reach :: "int set \<Rightarrow> float64 set \<Rightarrow> heap \<Rightarrow> heap \<Rightarrow> bool" for W X h where
  reach_refl: "reach W X h h"
| reach_step: "reach W X h h' \<Longrightarrow> q \<in> W \<Longrightarrow> x \<in> X \<Longrightarrow> reach W X h (h'(q := fadd (h' q) x))"

definition ok :: "int set \<Rightarrow> float64 set \<Rightarrow> heap \<Rightarrow> outcome \<Rightarrow> bool" where
  "ok W X h r \<longleftrightarrow> fst r = None \<and> reach W X h (snd r)"

text \<open>The consistency conditions that the kernels assert in debug builds.\<close>

definition dims_ok :: "Transpose \<Rightarrow> Transpose \<Rightarrow> general \<Rightarrow> general \<Rightarrow> general \<Rightarrow> bool" where
  "dims_ok tA tB a b c \<longleftrightarrow>
     (tA = NoTrans \<or> tA = Trans) \<and> (tB = NoTrans \<or> tB = Trans) \<and>
     (if tA = Trans then rows a else cols a) = (if tB = Trans then cols b else rows b) \<and>
     (if tA = Trans then cols a else rows a) = rows c \<and>
     (if tB = Trans then rows b else cols b) = cols c"

text \<open>The view that \<^verbatim>\<open>view\<close> returns when the sub-region fits.\<close>

definition sub_view :: "general \<Rightarrow> int \<Rightarrow> int \<Rightarrow> int \<Rightarrow> int \<Rightarrow> general" where
  "sub_view g i j r c =
     \<lparr>data = \<lparr>ptr = ptr (data g) + (i * stride g + j), len = (r - 1) * stride g + c,
              cap = cap (data g) - (i * stride g + j)\<rparr>,
      rows = r, cols = c, stride = stride g\<rparr>"

text \<open>The length of the contraction dimension, read off the stored A.\<close>

definition contraction :: "Transpose \<Rightarrow> general \<Rightarrow> int" where
  "contraction tA a = (if tA = Trans then rows a else cols a)"

text \<open>Memory with the function \<open>g\<close> applied to the cells in \<open>W\<close>; the cells of one row of a view.\<close>

definition map_region :: "int set \<Rightarrow> (float64 \<Rightarrow> float64) \<Rightarrow> heap \<Rightarrow> heap" where
  "map_region W g h = (\<lambda>p. if p \<in> W then g (h p) else h p)"

definition row_cells :: "general \<Rightarrow> int \<Rightarrow> int set" where
  "row_cells g i = (\<Union>j\<in>set [0..cols g - 1]. {ptr (data g) + i * stride g + j})"

text \<open>The three views that the entry point builds from its arguments.\<close>

definition operand_a :: "Transpose \<Rightarrow> int \<Rightarrow> int \<Rightarrow> slice \<Rightarrow> int \<Rightarrow> general" where
  "operand_a tA m k a lda =
     (if tA = Trans then \<lparr>data = a, rows = k, cols = m, stride = lda\<rparr>
      else \<lparr>data = a, rows = m, cols = k, stride = lda\<rparr>)"

definition operand_b :: "Transpose \<Rightarrow> int \<Rightarrow> int \<Rightarrow> slice \<Rightarrow> int \<Rightarrow> general" where
  "operand_b tB n k b ldb =
     (if tB = Trans then \<lparr>data = b, rows = n, cols = k, stride = ldb\<rparr>
      else \<lparr>data = b, rows = k, cols = n, stride = ldb\<rparr>)"

definition operand_c :: "int \<Rightarrow> int \<Rightarrow> slice \<Rightarrow> int \<Rightarrow> general" where
  "operand_c m n c ldc = \<lparr>data = c, rows = m, cols = n, stride = ldc\<rparr>"

text \<open>
  The entry checks: the three views pass the check and both flags are valid.  A call is
  valid when it passes them and its slices have their lengths within their capacities.
\<close>

definition checks_pass ::
  "Transpose \<Rightarrow> Transpose \<Rightarrow> int \<Rightarrow> int \<Rightarrow> int \<Rightarrow> slice \<Rightarrow> int \<Rightarrow> slice \<Rightarrow> int \<Rightarrow> slice \<Rightarrow> int \<Rightarrow> bool" where
  "checks_pass tA tB m n k a lda b ldb c ldc \<longleftrightarrow>
     check (operand_a tA m k a lda) = None \<and> check (operand_b tB n k b ldb) = None \<and>
     check (operand_c m n c ldc) = None \<and>
     (tA = NoTrans \<or> tA = Trans) \<and> (tB = NoTrans \<or> tB = Trans)"

definition valid_call ::
  "Transpose \<Rightarrow> Transpose \<Rightarrow> int \<Rightarrow> int \<Rightarrow> int \<Rightarrow> slice \<Rightarrow> int \<Rightarrow> slice \<Rightarrow> int \<Rightarrow> slice \<Rightarrow> int \<Rightarrow> bool" where
  "valid_call tA tB m n k a lda b ldb c ldc \<longleftrightarrow>
     checks_pass tA tB m n k a lda b ldb c ldc \<and>
     len a \<le> cap a \<and> len b \<le> cap b \<and> len c \<le> cap c"

text \<open>Memory after the beta pass over the logical region of \<open>cmat\<close>.\<close>

definition scaled :: "general \<Rightarrow> float64 \<Rightarrow> heap \<Rightarrow> heap" where
  "scaled cmat beta h = (if feq beta fone then h else map_region (region cmat) (\<lambda>v. fmul v beta) h)"

text \<open>
  Two runs side by side: \<open>sim r1 r2\<close> says that if the second run returns normally then so
  does the first, and every cell of the second holds the same number as in the first or
  NaN.  \<open>touched h r\<close>: the memory of \<open>r\<close> comes from \<open>h\<close> by adding zeros or NaNs.
\<close>

definition heap_approx :: "heap \<Rightarrow> heap \<Rightarrow> bool" where
  "heap_approx h1 h2 \<longleftrightarrow> (\<forall>p. approx (h1 p) (h2 p))"

definition sim :: "outcome \<Rightarrow> outcome \<Rightarrow> bool" where
  "sim r1 r2 \<longleftrightarrow> (fst r2 = None \<longrightarrow> fst r1 = None \<and> heap_approx (snd r1) (snd r2))"

definition touched :: "heap \<Rightarrow> outcome \<Rightarrow> bool" where
  "touched h r \<longleftrightarrow> reach UNIV {x. zero_or_nan x} h (snd r)"

text \<open>
  The first, second and fourth kernel without their short-circuit: the inner pass runs for
  every pair \<open>(i, l)\<close>, also when the multiplier is zero.  The third kernel has no
  short-circuit.
\<close>

definition dgemmSerialNotNot_noskip :: "general \<Rightarrow> general \<Rightarrow> general \<Rightarrow> float64 \<Rightarrow> heap \<Rightarrow> outcome" where
  "dgemmSerialNotNot_noskip a b c alpha h =
     for_each [0..rows a - 1] (\<lambda>i.
       with_value (reslice (data c) (i * stride c) (i * stride c + cols c)) (\<lambda>ctmp.
       with_value (reslice (data a) (i * stride a) (i * stride a + cols a)) (\<lambda>arow.
         for_each [0..len arow - 1] (\<lambda>l h.
           let v = h (ptr arow + l); tmp = fmul alpha v in
           with_value (reslice (data b) (l * stride b) (l * stride b + cols b)) (\<lambda>brow.
             for_each [0..len brow - 1] (\<lambda>j h.
               let w = h (ptr brow + j) in add_at ctmp j (fmul tmp w) h)) h)))) h"

definition dgemmSerialTransNot_noskip :: "general \<Rightarrow> general \<Rightarrow> general \<Rightarrow> float64 \<Rightarrow> heap \<Rightarrow> outcome" where
  "dgemmSerialTransNot_noskip a b c alpha h =
     for_each [0..rows a - 1] (\<lambda>l.
       with_value (reslice (data b) (l * stride b) (l * stride b + cols b)) (\<lambda>btmp.
       with_value (reslice (data a) (l * stride a) (l * stride a + cols a)) (\<lambda>arow.
         for_each [0..len arow - 1] (\<lambda>i h.
           let v = h (ptr arow + i); tmp = fmul alpha v in
           with_value (reslice (data c) (i * stride c) (i * stride c + cols c)) (\<lambda>ctmp h.
             for_each [0..len btmp - 1] (\<lambda>j h.
               let w = h (ptr btmp + j) in add_at ctmp j (fmul tmp w) h) h) h)))) h"

definition dgemmSerialTransTrans_noskip :: "general \<Rightarrow> general \<Rightarrow> general \<Rightarrow> float64 \<Rightarrow> heap \<Rightarrow> outcome" where
  "dgemmSerialTransTrans_noskip a b c alpha h =
     for_each [0..rows a - 1] (\<lambda>l.
       with_value (reslice (data a) (l * stride a) (l * stride a + cols a)) (\<lambda>arow.
         for_each [0..len arow - 1] (\<lambda>i h.
           let v = h (ptr arow + i) in
           with_value (reslice (data c) (i * stride c) (i * stride c + cols c)) (\<lambda>ctmp h.
             (let tmp = fmul alpha v in
              for_each [0..rows b - 1] (\<lambda>j h.
                if 0 \<le> j * stride b + l \<and> j * stride b + l < len (data b)
                then add_at ctmp j (fmul tmp (h (ptr (data b) + (j * stride b + l)))) h
                else (Some IndexOutOfRange, h)) h)) h))) h"

definition dgemmSerial_noskip ::
  "Transpose \<Rightarrow> Transpose \<Rightarrow> general \<Rightarrow> general \<Rightarrow> general \<Rightarrow> float64 \<Rightarrow> heap \<Rightarrow> outcome" where
  "dgemmSerial_noskip tA tB a b c alpha h =
     (if tA = NoTrans \<and> tB = NoTrans then dgemmSerialNotNot_noskip a b c alpha h
      else if tA = Trans \<and> tB = NoTrans then dgemmSerialTransNot_noskip a b c alpha h
      else if tA = NoTrans \<and> tB = Trans then dgemmSerialNotTrans a b c alpha h
      else if tA = Trans \<and> tB = Trans then dgemmSerialTransTrans_noskip a b c alpha h
      else (Some (Panic ''unreachable''), h))"

text \<open>What the third kernel does to an element of C when \<open>k = 0\<close>: it adds \<open>alpha * 0\<close>.\<close>

definition added_zero_product :: "float64 \<Rightarrow> float64 \<Rightarrow> float64" where
  "added_zero_product alpha v = fadd v (fmul alpha fzero)"





text \<open>Memory that holds the list \<open>xs\<close> from address 0 on, and zeros elsewhere.\<close>

definition heap_of :: "float64 list \<Rightarrow> heap" where
  "heap_of xs = (\<lambda>p. if 0 \<le> p \<and> p < int (length xs) then xs ! nat p else Fin False 0 0)"

section \<open>Properties\<close>

subsection \<open>Arithmetic on float64 values\<close>

lemma pow2_pos: "0 < pow2 k"
proof (induction k rule: pow2.induct)
  case (1 k)
  show ?case
  proof (cases "k \<le> 0")
    case True
    then show ?thesis by (simp add: pow2.simps)
  next
    case False
    with 1 have "0 < pow2 (k - 1)" by simp
    with False show ?thesis by (subst pow2.simps) simp
  qed
qed

lemma feq_fzero: "feq x fzero \<longleftrightarrow> is_zero x"
proof (cases x)
  case (Fin s m e)
  have "0 < pow2 (e - min e 0)" by (rule pow2_pos)
  then show ?thesis using Fin by (auto simp: fzero_def signed_def Let_def)
qed (simp_all add: fzero_def)

lemma fmul_zn_left: "zero_or_nan a \<Longrightarrow> zero_or_nan (fmul a x)"
  by (cases a; cases x) (auto simp: zero_or_nan_def)

lemma fmul_zn_right: "zero_or_nan x \<Longrightarrow> zero_or_nan (fmul a x)"
  by (cases a; cases x) (auto simp: zero_or_nan_def)

lemma fmul_finite_zero: "is_finite x \<Longrightarrow> is_zero b \<Longrightarrow> is_zero (fmul x b)"
  by (cases x; cases b) auto


lemma approx_refl: "approx x x"
  by (simp add: approx_def same_num_def)

lemma fmul_NaN_right [simp]: "fmul x NaN = NaN"
  by (cases x) simp_all

lemma fadd_NaN_right [simp]: "fadd x NaN = NaN"
  by (cases x) simp_all

lemma fmul_zero_left: "is_zero x \<Longrightarrow> is_zero x' \<Longrightarrow> same_num (fmul x y) (fmul x' y)"
  by (cases x; cases x'; cases y) (simp_all add: same_num_def)

lemma fmul_zero_right: "is_zero y \<Longrightarrow> is_zero y' \<Longrightarrow> same_num (fmul x y) (fmul x y')"
  by (cases x; cases y; cases y') (simp_all add: same_num_def)

lemma fmul_zero_both:
  "is_zero x \<Longrightarrow> is_zero x' \<Longrightarrow> is_zero y \<Longrightarrow> is_zero y' \<Longrightarrow> same_num (fmul x y) (fmul x' y')"
  by (cases x; cases x'; cases y; cases y') (simp_all add: same_num_def)

lemma same_num_fmul:
  assumes "same_num x x'" and "same_num y y'"
  shows "same_num (fmul x y) (fmul x' y')"
proof -
  consider "x = x'" "y = y'" | "x = x'" "is_zero y" "is_zero y'"
    | "is_zero x" "is_zero x'" "y = y'" | "is_zero x" "is_zero x'" "is_zero y" "is_zero y'"
    using assms by (auto simp: same_num_def)
  then show ?thesis
  proof cases
    case 1 then show ?thesis by (simp add: same_num_def)
  next
    case 2 then show ?thesis by (simp add: fmul_zero_right)
  next
    case 3 then show ?thesis by (simp add: fmul_zero_left)
  next
    case 4 then show ?thesis by (simp add: fmul_zero_both)
  qed
qed

lemma fadd_zero_left: "is_zero x \<Longrightarrow> is_zero x' \<Longrightarrow> same_num (fadd x y) (fadd x' y)"
  by (cases x; cases x'; cases y) (simp_all add: same_num_def)

lemma fadd_zero_right: "is_zero y \<Longrightarrow> is_zero y' \<Longrightarrow> same_num (fadd x y) (fadd x y')"
  by (cases x; cases y; cases y') (simp_all add: same_num_def)

lemma fadd_zero_both:
  "is_zero x \<Longrightarrow> is_zero x' \<Longrightarrow> is_zero y \<Longrightarrow> is_zero y' \<Longrightarrow> same_num (fadd x y) (fadd x' y')"
  by (cases x; cases x'; cases y; cases y') (simp_all add: same_num_def)

lemma same_num_fadd:
  assumes "same_num x x'" and "same_num y y'"
  shows "same_num (fadd x y) (fadd x' y')"
proof -
  consider "x = x'" "y = y'" | "x = x'" "is_zero y" "is_zero y'"
    | "is_zero x" "is_zero x'" "y = y'" | "is_zero x" "is_zero x'" "is_zero y" "is_zero y'"
    using assms by (auto simp: same_num_def)
  then show ?thesis
  proof cases
    case 1 then show ?thesis by (simp add: same_num_def)
  next
    case 2 then show ?thesis by (simp add: fadd_zero_right)
  next
    case 3 then show ?thesis by (simp add: fadd_zero_left)
  next
    case 4 then show ?thesis by (simp add: fadd_zero_both)
  qed
qed

lemma approx_fmul: "approx x x' \<Longrightarrow> approx y y' \<Longrightarrow> approx (fmul x y) (fmul x' y')"
  unfolding approx_def using same_num_fmul [of x x' y y']
  by (cases "is_nan x'"; cases "is_nan y'"; cases x'; cases y') auto

lemma approx_fadd: "approx x x' \<Longrightarrow> approx y y' \<Longrightarrow> approx (fadd x y) (fadd x' y')"
  unfolding approx_def using same_num_fadd [of x x' y y']
  by (cases "is_nan x'"; cases "is_nan y'"; cases x'; cases y') auto

lemma approx_fadd_zn: "approx x y \<Longrightarrow> zero_or_nan z \<Longrightarrow> approx x (fadd y z)"
  by (cases x; cases y; cases z) (auto simp: approx_def same_num_def zero_or_nan_def)

lemma approx_is_zero: "approx x y \<Longrightarrow> \<not> is_nan y \<Longrightarrow> is_zero x = is_zero y"
  by (cases x; cases y) (auto simp: approx_def same_num_def)

lemma approx_nonzero: "approx x y \<Longrightarrow> \<not> is_zero x \<Longrightarrow> \<not> is_zero y"
  by (cases x; cases y) (auto simp: approx_def same_num_def)

lemma approx_zero_zn: "approx x y \<Longrightarrow> is_zero x \<Longrightarrow> zero_or_nan y"
  by (cases x; cases y) (auto simp: approx_def same_num_def zero_or_nan_def)

lemma approx_sym_same: "approx x y \<Longrightarrow> approx y x \<Longrightarrow> same_num x y"
  by (cases x; cases y) (auto simp: approx_def same_num_def)

subsection \<open>Counting blocks\<close>

lemma sdiv_nonneg: "0 \<le> d \<Longrightarrow> d sdiv 64 = d div (64::int)"
  by (cases "d = 0") (simp_all add: signed_divide_int_def)

lemma smod_nonneg: "0 \<le> d \<Longrightarrow> d smod 64 = d mod (64::int)"
  by (rule smod_mod_positive) simp_all

lemma div64_up:
  fixes d :: int
  shows "(d + 63) div 64 = (if d mod 64 \<noteq> 0 then d div 64 + 1 else d div 64)"
proof -
  have split: "(d + 63) div 64 = d div 64 + (d mod 64 + 63) div 64"
    by (simp add: div_add1_eq [of d 63 64])
  have range: "0 \<le> d mod 64" "d mod 64 < 64" by simp_all
  show ?thesis
  proof (cases "d mod 64 = 0")
    case True
    then show ?thesis using split by simp
  next
    case False
    with range have "64 \<le> d mod 64 + 63" "d mod 64 + 63 - 64 < 64" "0 \<le> d mod 64 + 63 - 64"
      by linarith+
    then have "(d mod 64 + 63) div 64 = 1"
      using div_pos_geq [of 64 "d mod 64 + 63"] div_pos_pos_trivial [of "d mod 64 + 63 - 64" 64]
      by simp
    with False split show ?thesis by simp
  qed
qed

lemma numBlocks_nonneg:
  assumes "0 \<le> d"
  shows "numBlocks d = (d + 63) div 64"
  by (simp add: numBlocks_def blockSize_def sdiv_nonneg [OF assms] smod_nonneg [OF assms] div64_up)

lemma numBlocks_ceiling:
  assumes "0 \<le> d"
  shows "numBlocks d = \<lceil>of_int d / (64::real)\<rceil>"
proof -
  have "\<lceil>of_int d / (64::real)\<rceil> = - ((- d) div 64)"
    by (metis ceiling_divide_eq_div of_int_numeral)
  also have "\<dots> = (d + 63) div 64"
    using zdiv_zminus1_eq_if [of 64 d] by (simp add: div64_up)
  finally show ?thesis using numBlocks_nonneg [OF assms] by simp
qed

subsection \<open>The kernels return normally and write only to C\<close>

lemma wf_iff:
  "well_formed g \<longleftrightarrow> 0 \<le> rows g \<and> 0 \<le> cols g \<and> cols g \<le> stride g \<and>
     (rows g - 1) * stride g + cols g \<le> len (data g) \<and> len (data g) \<le> cap (data g)"
  by (auto simp: well_formed_def check_def)

lemma reach_trans: "reach W X h1 h2 \<Longrightarrow> reach W X h0 h1 \<Longrightarrow> reach W X h0 h2"
  by (induction rule: reach.induct) (auto intro: reach.intros)

lemma reach_mono: "reach W X h h' \<Longrightarrow> W \<subseteq> W' \<Longrightarrow> X \<subseteq> X' \<Longrightarrow> reach W' X' h h'"
  by (induction rule: reach.induct) (auto intro: reach.intros)

lemma reach_frame: "reach W X h h' \<Longrightarrow> p \<notin> W \<Longrightarrow> h' p = h p"
  by (induction rule: reach.induct) auto


lemma ok_refl: "ok W X h (None, h)"
  by (simp add: ok_def reach_refl)

lemma ok_then_do:
  assumes "ok W X h r" and "\<And>h'. ok W X h' (f h')"
  shows "ok W X h (then_do r f)"
proof -
  from assms(1) have r: "fst r = None" "reach W X h (snd r)"
    by (simp_all add: ok_def)
  from assms(2) [of "snd r"] have f: "fst (f (snd r)) = None" "reach W X (snd r) (snd (f (snd r)))"
    by (simp_all add: ok_def)
  from reach_trans [OF f(2) r(2)] r(1) f(1) show ?thesis
    by (simp add: ok_def then_do_def)
qed

lemma ok_for_each:
  assumes "\<And>x h. x \<in> set xs \<Longrightarrow> ok W X h (f x h)"
  shows "ok W X h (for_each xs f h)"
  using assms
proof (induction xs arbitrary: h)
  case Nil
  then show ?case by (simp add: ok_refl)
next
  case (Cons x xs)
  show ?case unfolding for_each.simps
    by (rule ok_then_do) (simp_all add: Cons)
qed

lemma ok_with_value:
  assumes "r = Inr s" and "ok W X h (f s h)"
  shows "ok W X h (with_value r f h)"
  using assms by (simp add: with_value_def)

lemma ok_add_at:
  assumes "0 \<le> j" "j < len s" "ptr s + j \<in> W" "x \<in> X"
  shows "ok W X h (add_at s j x h)"
  using assms by (simp add: add_at_def ok_def reach_step reach_refl)

lemma ok_mono: "ok W X h r \<Longrightarrow> W \<subseteq> W' \<Longrightarrow> X \<subseteq> X' \<Longrightarrow> ok W' X' h r"
  by (auto simp: ok_def intro: reach_mono)

lemma row_bounds:
  fixes i r s c L :: int
  assumes "0 \<le> i" "i < r" "0 \<le> c" "c \<le> s" "(r - 1) * s + c \<le> L"
  shows "0 \<le> i * s" "i * s + c \<le> L"
proof -
  from assms have s: "0 \<le> s" by simp
  with assms show "0 \<le> i * s" by simp
  from assms have "i \<le> r - 1" by simp
  then have "i * s \<le> (r - 1) * s" using s by (rule mult_right_mono)
  with assms show "i * s + c \<le> L" by simp
qed

lemma reslice_row:
  assumes "well_formed g" "0 \<le> i" "i < rows g"
  shows "reslice (data g) (i * stride g) (i * stride g + cols g) =
           Inr \<lparr>ptr = ptr (data g) + i * stride g, len = cols g, cap = cap (data g) - i * stride g\<rparr>"
proof -
  from assms(1) have w: "0 \<le> cols g" "cols g \<le> stride g"
    "(rows g - 1) * stride g + cols g \<le> len (data g)" "len (data g) \<le> cap (data g)"
    by (simp_all add: wf_iff)
  from row_bounds [OF assms(2,3) w(1,2,3)] w show ?thesis
    by (simp add: reslice_def)
qed

lemma in_region: "0 \<le> i \<Longrightarrow> i < rows g \<Longrightarrow> 0 \<le> j \<Longrightarrow> j < cols g \<Longrightarrow>
  ptr (data g) + i * stride g + j \<in> region g"
  by (auto simp: region_def)

lemma terms_I1: "fmul (fmul alpha v) w \<in> terms alpha"
  by (auto simp: terms_def)

lemma terms_I2: "fmul alpha t \<in> terms alpha"
  by (auto simp: terms_def)

lemma with_value_Inr [simp]: "with_value (Inr s) f h = f s h"
  by (simp add: with_value_def)

lemma with_value_Inl [simp]: "with_value (Inl e) f h = (Some e, h)"
  by (simp add: with_value_def)

lemma NotNot_ok:
  assumes a: "well_formed a" and b: "well_formed b" and c: "well_formed c"
    and dims: "cols a \<le> rows b" "rows a \<le> rows c" "cols b \<le> cols c"
  shows "ok (region c) (terms alpha) h (dgemmSerialNotNot a b c alpha h)"
  unfolding dgemmSerialNotNot_def debug_def Let_def using dims
  by (auto intro!: ok_for_each ok_refl ok_add_at in_region terms_I1
           simp: reslice_row [OF a] reslice_row [OF b] reslice_row [OF c])

lemma index_bounds:
  assumes "well_formed g" "0 \<le> j" "j < rows g" "0 \<le> l" "l < cols g"
  shows "0 \<le> j * stride g + l" "j * stride g + l < len (data g)"
proof -
  from assms(1) have w: "0 \<le> cols g" "cols g \<le> stride g"
    "(rows g - 1) * stride g + cols g \<le> len (data g)"
    by (simp_all add: wf_iff)
  from row_bounds [OF assms(2,3) w] assms(4,5)
  show "0 \<le> j * stride g + l" "j * stride g + l < len (data g)" by simp_all
qed

lemma TransNot_ok:
  assumes a: "well_formed a" and b: "well_formed b" and c: "well_formed c"
    and dims: "rows a \<le> rows b" "cols a \<le> rows c" "cols b \<le> cols c"
  shows "ok (region c) (terms alpha) h (dgemmSerialTransNot a b c alpha h)"
  unfolding dgemmSerialTransNot_def debug_def Let_def using dims
  by (auto intro!: ok_for_each ok_refl ok_add_at in_region terms_I1
           simp: reslice_row [OF a] reslice_row [OF b] reslice_row [OF c])

lemma dot_total:
  assumes "\<And>l. l \<in> set ls \<Longrightarrow> 0 \<le> l \<and> l < len atmp"
  shows "\<exists>t. dot atmp brow ls tmp h = Inr t"
  using assms by (induction ls arbitrary: tmp) (simp_all add: Let_def)

lemma NotTrans_ok:
  assumes a: "well_formed a" and b: "well_formed b" and c: "well_formed c"
    and dims: "cols b \<le> cols a" "rows a \<le> rows c" "rows b \<le> cols c"
  shows "ok (region c) (terms alpha) h (dgemmSerialNotTrans a b c alpha h)"
  unfolding dgemmSerialNotTrans_def debug_def
proof (simp, intro ok_for_each)
  fix i h assume "i \<in> set [0..rows a - 1]"
  then have i: "0 \<le> i" "i < rows a" "i < rows c" using dims by simp_all
  let ?atmp = "\<lparr>ptr = ptr (data a) + i * stride a, len = cols a, cap = cap (data a) - i * stride a\<rparr>"
  let ?ctmp = "\<lparr>ptr = ptr (data c) + i * stride c, len = cols c, cap = cap (data c) - i * stride c\<rparr>"
  have "ok (region c) (terms alpha) h
      (for_each [0..rows b - 1] (\<lambda>j.
         with_value (reslice (data b) (j * stride b) (j * stride b + cols b)) (\<lambda>brow h.
           with_value (dot ?atmp brow [0..len brow - 1] fzero h) (\<lambda>tmp.
             add_at ?ctmp j (fmul alpha tmp)) h)) h)"
  proof (rule ok_for_each)
    fix j h assume "j \<in> set [0..rows b - 1]"
    then have j: "0 \<le> j" "j < rows b" "j < cols c" using dims by simp_all
    let ?brow = "\<lparr>ptr = ptr (data b) + j * stride b, len = cols b, cap = cap (data b) - j * stride b\<rparr>"
    obtain t where t: "dot ?atmp ?brow [0..cols b - 1] fzero h = Inr t"
      using dot_total [of "[0..cols b - 1]" ?atmp ?brow fzero h] dims by auto
    show "ok (region c) (terms alpha) h
       (with_value (reslice (data b) (j * stride b) (j * stride b + cols b)) (\<lambda>brow h.
           with_value (dot ?atmp brow [0..len brow - 1] fzero h) (\<lambda>tmp.
             add_at ?ctmp j (fmul alpha tmp)) h) h)"
      using i j by (simp add: reslice_row [OF b j(1,2)] t) (auto intro!: ok_add_at in_region terms_I2)
  qed
  then show "ok (region c) (terms alpha) h
     (with_value (reslice (data a) (i * stride a) (i * stride a + cols a)) (\<lambda>atmp.
      with_value (reslice (data c) (i * stride c) (i * stride c + cols c)) (\<lambda>ctmp.
        for_each [0..rows b - 1] (\<lambda>j.
          with_value (reslice (data b) (j * stride b) (j * stride b + cols b)) (\<lambda>brow h.
            with_value (dot atmp brow [0..len brow - 1] fzero h) (\<lambda>tmp.
              add_at ctmp j (fmul alpha tmp)) h)))) h)"
    by (simp add: reslice_row [OF a i(1,2)] reslice_row [OF c i(1,3)])
qed

lemma TransTrans_ok:
  assumes a: "well_formed a" and b: "well_formed b" and c: "well_formed c"
    and dims: "rows a \<le> cols b" "cols a \<le> rows c" "rows b \<le> cols c"
  shows "ok (region c) (terms alpha) h (dgemmSerialTransTrans a b c alpha h)"
  unfolding dgemmSerialTransTrans_def debug_def Let_def using dims
  by (auto intro!: ok_for_each ok_refl ok_add_at in_region terms_I1
           simp: reslice_row [OF a] reslice_row [OF b] reslice_row [OF c]
                 index_bounds [OF b])

lemma dgemmSerial_ok:
  assumes "well_formed a" "well_formed b" "well_formed c" "dims_ok tA tB a b c"
  shows "ok (region c) (terms alpha) h (dgemmSerial tA tB a b c alpha h)"
  using assms NotNot_ok [of a b c alpha h] TransNot_ok [of a b c alpha h]
    NotTrans_ok [of a b c alpha h] TransTrans_ok [of a b c alpha h]
  unfolding dgemmSerial_def dims_ok_def by (auto split: if_splits)

subsection \<open>Views and the tiled path\<close>

lemma sub_view_simps [simp]:
  "rows (sub_view g i j r c) = r" "cols (sub_view g i j r c) = c"
  "stride (sub_view g i j r c) = stride g"
  by (simp_all add: sub_view_def)

lemma view_eq:
  assumes g: "well_formed g" and ij: "0 \<le> i" "0 \<le> j" and rc: "1 \<le> r" "0 \<le> c"
    and fit: "i + r \<le> rows g" "j + c \<le> cols g"
  shows "view g i j r c = Inr (sub_view g i j r c)"
proof -
  from g have w: "0 \<le> cols g" "cols g \<le> stride g"
    "(rows g - 1) * stride g + cols g \<le> len (data g)" "len (data g) \<le> cap (data g)"
    by (simp_all add: wf_iff)
  have s: "0 \<le> stride g" using w by simp
  have lo: "0 \<le> i * stride g + j" using ij s by simp
  have "0 \<le> (r - 1) * stride g" using rc s by simp
  then have mid: "i * stride g + j \<le> (i + r - 1) * stride g + j + c"
    using rc by (simp add: algebra_simps)
  have "0 \<le> i + r - 1" "i + r - 1 < rows g" using ij rc fit by simp_all
  from row_bounds [OF this w(1,2,3)] have "(i + r - 1) * stride g + cols g \<le> len (data g)"
    by simp
  with fit w have hi: "(i + r - 1) * stride g + j + c \<le> cap (data g)" by simp
  have "(i + r - 1) * stride g + j + c - (i * stride g + j) = (r - 1) * stride g + c"
    by (simp add: algebra_simps)
  with lo mid hi show ?thesis
    by (simp add: view_def debug_def reslice_def sub_view_def)
qed

lemma wf_sub_view:
  assumes g: "well_formed g" and ij: "0 \<le> i" "0 \<le> j" and rc: "1 \<le> r" "0 \<le> c"
    and fit: "i + r \<le> rows g" "j + c \<le> cols g"
  shows "well_formed (sub_view g i j r c)"
proof -
  from g have w: "0 \<le> cols g" "cols g \<le> stride g"
    "(rows g - 1) * stride g + cols g \<le> len (data g)" "len (data g) \<le> cap (data g)"
    by (simp_all add: wf_iff)
  have "0 \<le> i + r - 1" "i + r - 1 < rows g" using ij rc fit by simp_all
  from row_bounds [OF this w(1,2,3)] have "(i + r - 1) * stride g + cols g \<le> len (data g)"
    by simp
  then have "(i + r - 1) * stride g + j + c \<le> cap (data g)" using fit w by simp
  then have "(r - 1) * stride g + c \<le> cap (data g) - (i * stride g + j)"
    by (simp add: algebra_simps)
  then show ?thesis using ij rc fit w by (simp add: wf_iff sub_view_def)
qed

lemma region_sub_view:
  assumes ij: "0 \<le> i" "0 \<le> j" and fit: "i + r \<le> rows g" "j + c \<le> cols g"
  shows "region (sub_view g i j r c) \<subseteq> region g"
proof
  fix p assume "p \<in> region (sub_view g i j r c)"
  then obtain i' j' where p: "p = ptr (data g) + (i * stride g + j) + i' * stride g + j'"
    and b: "0 \<le> i'" "i' < r" "0 \<le> j'" "j' < c"
    by (auto simp: region_def sub_view_def)
  have "p = ptr (data g) + (i + i') * stride g + (j + j')"
    using p by (simp add: algebra_simps)
  moreover have "0 \<le> i + i'" "i + i' < rows g" "0 \<le> j + j'" "j + j' < cols g"
    using ij fit b by simp_all
  ultimately show "p \<in> region g" by (auto simp: region_def)
qed

lemma block_starts_bounds: "x \<in> set (block_starts i n) \<Longrightarrow> i \<le> x \<and> x < n"
proof (induction i n rule: block_starts.induct)
  case (1 i n)
  show ?case
  proof (cases "i < n")
    case True
    with 1 show ?thesis
      by (subst (asm) (2) block_starts.simps) (auto simp: blockSize_def)
  next
    case False
    with 1(2) show ?thesis by (subst (asm) block_starts.simps) simp
  qed
qed

lemma tile_tasks_bounds:
  "SubMul i j \<in> set (tile_tasks c) \<Longrightarrow> 0 \<le> i \<and> i < rows c \<and> 0 \<le> j \<and> j < cols c"
  by (auto simp: tile_tasks_def dest: block_starts_bounds)

lemma tile_worker_ok:
  assumes a: "well_formed a" and b: "well_formed b" and c: "well_formed c" and d: "dims_ok tA tB a b c"
    and t: "t \<in> set (tile_tasks c)"
  shows "ok (region c) (terms alpha) h (tile_worker tA tB a b c alpha (contraction tA a) t h)"
proof -
  obtain i j where t_eq: "t = SubMul i j" by (cases t)
  with t have ij: "0 \<le> i" "i < rows c" "0 \<le> j" "j < cols c"
    using tile_tasks_bounds by blast+
  define leni where "leni = (if i + blockSize > rows c then rows c - i else blockSize)"
  define lenj where "lenj = (if j + blockSize > cols c then cols c - j else blockSize)"
  have li: "1 \<le> leni" "i + leni \<le> rows c" and lj: "1 \<le> lenj" "j + lenj \<le> cols c"
    using ij by (auto simp: leni_def lenj_def blockSize_def)
  let ?cSub = "sub_view c i j leni lenj"
  have vc: "view c i j leni lenj = Inr ?cSub"
    using view_eq [OF c ij(1,3) li(1) _ li(2) lj(2)] lj by simp
  have wc: "well_formed ?cSub" using wf_sub_view [OF c ij(1,3) li(1) _ li(2) lj(2)] lj by simp
  have rc: "region ?cSub \<subseteq> region c" by (rule region_sub_view [OF ij(1,3) li(2) lj(2)])
  have body: "ok (region c) (terms alpha) h
     (let lenk = (if k + blockSize > contraction tA a then contraction tA a - k else blockSize) in
      with_value (if tA = Trans then view a k i lenk leni else view a i k leni lenk) (\<lambda>aSub.
      with_value (if tB = Trans then view b j k lenj lenk else view b k j lenk lenj) (\<lambda>bSub.
        dgemmSerial tA tB aSub bSub ?cSub alpha)) h)"
    if k: "k \<in> set (block_starts 0 (contraction tA a))" for k h
  proof -
    define lenk where "lenk = (if k + blockSize > contraction tA a then contraction tA a - k else blockSize)"
    from block_starts_bounds [OF k] have kb: "0 \<le> k" "k < contraction tA a" by simp_all
    then have lk: "1 \<le> lenk" "k + lenk \<le> contraction tA a"
      by (auto simp: lenk_def blockSize_def)
    define aSub where "aSub = (if tA = Trans then sub_view a k i lenk leni else sub_view a i k leni lenk)"
    define bSub where "bSub = (if tB = Trans then sub_view b j k lenj lenk else sub_view b k j lenk lenj)"
    from d have flags: "tA = NoTrans \<or> tA = Trans" "tB = NoTrans \<or> tB = Trans"
      and inner: "contraction tA a = (if tB = Trans then cols b else rows b)"
      and outer: "(if tA = Trans then cols a else rows a) = rows c"
        "(if tB = Trans then rows b else cols b) = cols c"
      by (simp_all add: dims_ok_def contraction_def)
    have va: "(if tA = Trans then view a k i lenk leni else view a i k leni lenk) = Inr aSub"
      and wa: "well_formed aSub"
      using view_eq [OF a kb(1) ij(1), of lenk leni] view_eq [OF a ij(1) kb(1), of leni lenk]
        wf_sub_view [OF a kb(1) ij(1), of lenk leni] wf_sub_view [OF a ij(1) kb(1), of leni lenk]
        li lk outer
      by (auto simp: aSub_def contraction_def split: if_splits)
    have vb: "(if tB = Trans then view b j k lenj lenk else view b k j lenk lenj) = Inr bSub"
      and wb: "well_formed bSub"
      using view_eq [OF b ij(3) kb(1), of lenj lenk] view_eq [OF b kb(1) ij(3), of lenk lenj]
        wf_sub_view [OF b ij(3) kb(1), of lenj lenk] wf_sub_view [OF b kb(1) ij(3), of lenk lenj]
        lj lk outer inner
      by (auto simp: bSub_def split: if_splits)
    have dk: "dims_ok tA tB aSub bSub ?cSub"
      using flags by (auto simp: dims_ok_def aSub_def bSub_def)
    have "ok (region c) (terms alpha) h (dgemmSerial tA tB aSub bSub ?cSub alpha h)"
      by (rule ok_mono [OF dgemmSerial_ok [OF wa wb wc dk] rc]) simp
    then show ?thesis
      unfolding Let_def lenk_def [symmetric] by (simp add: va vb)
  qed
  show ?thesis
    unfolding t_eq tile_worker.simps Let_def leni_def [symmetric] lenj_def [symmetric]
    by (simp add: vc) (rule ok_for_each, rule body [unfolded Let_def])
qed

lemma computeNumBlocks_fst:
  "fst (computeNumBlocks a b (tA = Trans) bT) = contraction tA a"
  by (simp add: computeNumBlocks_def contraction_def Let_def)

lemma dgemmParallel_ok:
  assumes a: "well_formed a" and b: "well_formed b" and c: "well_formed c" and d: "dims_ok tA tB a b c"
  shows "ok (region c) (terms alpha) h (dgemmParallel tA tB a b c alpha h)"
  unfolding dgemmParallel_def Let_def computeNumBlocks_fst
  by (auto intro!: ok_for_each tile_worker_ok dgemmSerial_ok assms)

subsection \<open>The beta pass\<close>

lemma map_region_union:
  "A \<inter> B = {} \<Longrightarrow> map_region B g (map_region A g h) = map_region (A \<union> B) g h"
  by (auto simp: map_region_def fun_eq_iff)

lemma then_do_None [simp]: "then_do (None, h) f = f h"
  by (simp add: then_do_def)

lemma then_do_Some [simp]: "then_do (Some e, h) f = (Some e, h)"
  by (simp add: then_do_def)

lemma for_each_map_region:
  assumes "\<And>x h. x \<in> set xs \<Longrightarrow> f x h = (None, map_region (W x) g h)"
    and "distinct xs"
    and "\<And>x y. x \<in> set xs \<Longrightarrow> y \<in> set xs \<Longrightarrow> x \<noteq> y \<Longrightarrow> W x \<inter> W y = {}"
  shows "for_each xs f h = (None, map_region (\<Union>x\<in>set xs. W x) g h)"
  using assms
proof (induction xs arbitrary: h)
  case Nil
  then show ?case by (simp add: map_region_def)
next
  case (Cons x xs)
  have disj: "W x \<inter> (\<Union>y\<in>set xs. W y) = {}"
    using Cons.prems(2,3) by fastforce
  have "for_each (x # xs) f h = for_each xs f (map_region (W x) g h)"
    by (simp add: Cons.prems(1))
  also have "\<dots> = (None, map_region (\<Union>y\<in>set xs. W y) g (map_region (W x) g h))"
    using Cons.prems by (intro Cons.IH) auto
  finally show ?case by (simp add: map_region_union [OF disj])
qed

lemma for_each_id:
  assumes "\<And>x h. x \<in> set xs \<Longrightarrow> f x h = (None, h)"
  shows "for_each xs f h = (None, h)"
  using assms by (induction xs arbitrary: h) simp_all

lemma rows_disjoint:
  fixes i i' j j' c s :: int
  assumes "0 \<le> j" "j < c" "0 \<le> j'" "j' < c" "c \<le> s" "i * s + j = i' * s + j'"
  shows "i = i'"
proof (rule ccontr)
  assume ne: "i \<noteq> i'"
  have s: "0 \<le> s" using assms by simp
  show False
  proof (cases "i < i'")
    case True
    then have "(i + 1) * s \<le> i' * s" using s by (intro mult_right_mono) simp_all
    with assms show False by (simp add: algebra_simps)
  next
    case False
    with ne have "i' < i" by simp
    then have "(i' + 1) * s \<le> i * s" using s by (intro mult_right_mono) simp_all
    with assms show False by (simp add: algebra_simps)
  qed
qed

lemma row_cells_disjoint:
  assumes "well_formed g" "i \<noteq> i'"
  shows "row_cells g i \<inter> row_cells g i' = {}"
proof -
  from assms(1) have "cols g \<le> stride g" by (simp add: wf_iff)
  with assms(2) show ?thesis
    using rows_disjoint [of _ "cols g" _ "stride g" i i'] by (fastforce simp: row_cells_def)
qed

lemma region_rows: "region g = (\<Union>i\<in>set [0..rows g - 1]. row_cells g i)"
  by (fastforce simp: region_def row_cells_def)

lemma mul_at_map:
  "0 \<le> j \<Longrightarrow> j < len s \<Longrightarrow> mul_at s j x h = (None, map_region {ptr s + j} (\<lambda>v. fmul v x) h)"
  by (auto simp: mul_at_def map_region_def fun_eq_iff)

lemma add_at_map:
  "0 \<le> j \<Longrightarrow> j < len s \<Longrightarrow> add_at s j x h = (None, map_region {ptr s + j} (\<lambda>v. fadd v x) h)"
  by (auto simp: add_at_def map_region_def fun_eq_iff)

lemma scale_c_eq:
  assumes c: "well_formed c"
  shows "scale_c c (rows c) beta h = (None, map_region (region c) (\<lambda>v. fmul v beta) h)"
proof -
  have row: "with_value (reslice (data c) (i * stride c) (i * stride c + cols c))
          (\<lambda>ctmp. for_each [0..len ctmp - 1] (\<lambda>j. mul_at ctmp j beta)) h =
        (None, map_region (row_cells c i) (\<lambda>v. fmul v beta) h)"
    if "i \<in> set [0..rows c - 1]" for i h
  proof -
    from that have i: "0 \<le> i" "i < rows c" by simp_all
    let ?ctmp = "\<lparr>ptr = ptr (data c) + i * stride c, len = cols c, cap = cap (data c) - i * stride c\<rparr>"
    have "for_each [0..cols c - 1] (\<lambda>j. mul_at ?ctmp j beta) h =
        (None, map_region (\<Union>j\<in>set [0..cols c - 1]. {ptr ?ctmp + j}) (\<lambda>v. fmul v beta) h)"
      by (rule for_each_map_region) (simp_all add: mul_at_map)
    then show ?thesis
      by (simp add: reslice_row [OF c i] row_cells_def)
  qed
  show ?thesis
    unfolding scale_c_def region_rows
    by (rule for_each_map_region) (simp_all add: row row_cells_disjoint [OF c])
qed

subsection \<open>The entry point\<close>

lemma Dgemm_rejects:
  assumes "\<not> checks_pass tA tB m n k a lda b ldb c ldc"
  shows "fst (Dgemm tA tB m n k alpha a lda b ldb beta c ldc h) \<noteq> None"
    and "snd (Dgemm tA tB m n k alpha a lda b ldb beta c ldc h) = h"
  using assms
  by (auto simp: Dgemm_def checks_pass_def operand_a_def operand_b_def operand_c_def Let_def)

lemma valid_wf:
  assumes "valid_call tA tB m n k a lda b ldb c ldc"
  shows "well_formed (operand_a tA m k a lda)" "well_formed (operand_b tB n k b ldb)" "well_formed (operand_c m n c ldc)"
    "dims_ok tA tB (operand_a tA m k a lda) (operand_b tB n k b ldb) (operand_c m n c ldc)"
  using assms
  by (auto simp: valid_call_def checks_pass_def well_formed_def dims_ok_def operand_a_def operand_b_def
      operand_c_def)

lemma Dgemm_accepts:
  assumes v: "valid_call tA tB m n k a lda b ldb c ldc"
  shows "Dgemm tA tB m n k alpha a lda b ldb beta c ldc h =
     dgemmParallel tA tB (operand_a tA m k a lda) (operand_b tB n k b ldb) (operand_c m n c ldc) alpha
       (scaled (operand_c m n c ldc) beta h)"
proof -
  have "scale_c (operand_c m n c ldc) m beta h =
      (None, map_region (region (operand_c m n c ldc)) (\<lambda>v. fmul v beta) h)"
    using scale_c_eq [OF valid_wf(3) [OF v], of beta h] by (simp add: operand_c_def)
  moreover have "checks_pass tA tB m n k a lda b ldb c ldc"
    using v by (simp add: valid_call_def)
  ultimately show ?thesis
    unfolding Dgemm_def Let_def scaled_def
    by (auto simp: checks_pass_def operand_a_def operand_b_def operand_c_def)
qed

lemma Dgemm_ok:
  assumes v: "valid_call tA tB m n k a lda b ldb c ldc"
  shows "ok (region (operand_c m n c ldc)) (terms alpha) (scaled (operand_c m n c ldc) beta h)
           (Dgemm tA tB m n k alpha a lda b ldb beta c ldc h)"
  unfolding Dgemm_accepts [OF v]
  by (rule dgemmParallel_ok [OF valid_wf [OF v]])

lemma scaled_frame: "p \<notin> region cmat \<Longrightarrow> scaled cmat beta h p = h p"
  by (simp add: scaled_def map_region_def)

text \<open>
  Claim C9.  A valid call writes only to the logical \<open>m \<times> n\<close> region of C.  Every memory
  cell outside that region holds after the call what it held before: the padding of each
  row of C between column \<open>n\<close> and the stride, the cells of the C buffer past the last
  logical row, and the cells of the A and B buffers (which lie outside the region of C
  unless the caller lets the operands overlap).  This covers the beta pass and all four
  kernels, on the serial and on the tiled path.
\<close>

theorem Dgemm_writes_only_logical_region:
  assumes "valid_call tA tB m n k a lda b ldb c ldc"
    and "p \<notin> region (operand_c m n c ldc)"
  shows "snd (Dgemm tA tB m n k alpha a lda b ldb beta c ldc h) p = h p"
proof -
  from Dgemm_ok [OF assms(1), of alpha beta h]
  have "reach (region (operand_c m n c ldc)) (terms alpha) (scaled (operand_c m n c ldc) beta h)
          (snd (Dgemm tA tB m n k alpha a lda b ldb beta c ldc h))"
    by (simp add: ok_def)
  from reach_frame [OF this assms(2)] scaled_frame [OF assms(2)] show ?thesis by simp
qed

text \<open>
  Claim C8.  For slices as Go builds them (length within capacity), the call panics
  exactly when a shape or stride check of one of the three views fails or a transpose
  flag is invalid, and a call that panics leaves all of memory, hence A, B and C, as it
  was: no panic can occur once the beta pass has started.
\<close>

theorem Dgemm_fails_atomically:
  assumes "len a \<le> cap a" "len b \<le> cap b" "len c \<le> cap c"
  shows "(fst (Dgemm tA tB m n k alpha a lda b ldb beta c ldc h) \<noteq> None \<longleftrightarrow>
            \<not> checks_pass tA tB m n k a lda b ldb c ldc) \<and>
         (fst (Dgemm tA tB m n k alpha a lda b ldb beta c ldc h) \<noteq> None \<longrightarrow>
            snd (Dgemm tA tB m n k alpha a lda b ldb beta c ldc h) = h)"
proof (cases "checks_pass tA tB m n k a lda b ldb c ldc")
  case True
  with assms have "valid_call tA tB m n k a lda b ldb c ldc" by (simp add: valid_call_def)
  from Dgemm_ok [OF this, of alpha beta h] True show ?thesis by (simp add: ok_def)
next
  case False
  from Dgemm_rejects [OF this] False show ?thesis by simp
qed



theorem Dgemm_writes_only_logical_region_witness:
  "valid_call NoTrans NoTrans 1 1 1 \<lparr>ptr = 0, len = 1, cap = 1\<rparr> 1 \<lparr>ptr = 1, len = 1, cap = 1\<rparr> 1
     \<lparr>ptr = 2, len = 2, cap = 2\<rparr> 2 \<and>
   3 \<notin> region (operand_c 1 1 \<lparr>ptr = 2, len = 2, cap = 2\<rparr> 2) \<and>
   snd (Dgemm NoTrans NoTrans 1 1 1 fone \<lparr>ptr = 0, len = 1, cap = 1\<rparr> 1
          \<lparr>ptr = 1, len = 1, cap = 1\<rparr> 1 fzero \<lparr>ptr = 2, len = 2, cap = 2\<rparr> 2 (\<lambda>p. fone)) 3 = fone"
proof -
  have v: "valid_call NoTrans NoTrans 1 1 1 \<lparr>ptr = 0, len = 1, cap = 1\<rparr> 1
      \<lparr>ptr = 1, len = 1, cap = 1\<rparr> 1 \<lparr>ptr = 2, len = 2, cap = 2\<rparr> 2"
    by (simp add: valid_call_def checks_pass_def check_def operand_a_def operand_b_def operand_c_def)
  have r: "3 \<notin> region (operand_c 1 1 \<lparr>ptr = 2, len = 2, cap = 2\<rparr> 2)"
    by (auto simp: region_def operand_c_def)
  from Dgemm_writes_only_logical_region [OF v r, of fone fzero "\<lambda>p. fone"] v r
  show ?thesis by simp
qed

theorem Dgemm_fails_atomically_witness:
  "len \<lparr>ptr = 0, len = 1, cap = 1\<rparr> \<le> cap \<lparr>ptr = 0, len = 1, cap = 1\<rparr> \<and>
   len \<lparr>ptr = 1, len = 1, cap = 1\<rparr> \<le> cap \<lparr>ptr = 1, len = 1, cap = 1\<rparr> \<and>
   len \<lparr>ptr = 2, len = 3, cap = 3\<rparr> \<le> cap \<lparr>ptr = 2, len = 3, cap = 3\<rparr> \<and>
   fst (Dgemm NoTrans NoTrans 2 2 1 fone \<lparr>ptr = 0, len = 1, cap = 1\<rparr> 1
          \<lparr>ptr = 1, len = 1, cap = 1\<rparr> 2 fzero \<lparr>ptr = 2, len = 3, cap = 3\<rparr> 2 (\<lambda>p. fone)) \<noteq> None \<and>
   snd (Dgemm NoTrans NoTrans 2 2 1 fone \<lparr>ptr = 0, len = 1, cap = 1\<rparr> 1
          \<lparr>ptr = 1, len = 1, cap = 1\<rparr> 2 fzero \<lparr>ptr = 2, len = 3, cap = 3\<rparr> 2 (\<lambda>p. fone)) = (\<lambda>p. fone)"
proof -
  have "\<not> checks_pass NoTrans NoTrans 2 2 1 \<lparr>ptr = 0, len = 1, cap = 1\<rparr> 1
      \<lparr>ptr = 1, len = 1, cap = 1\<rparr> 2 \<lparr>ptr = 2, len = 3, cap = 3\<rparr> 2"
    by (simp add: checks_pass_def check_def operand_a_def operand_b_def operand_c_def)
  with Dgemm_fails_atomically [of "\<lparr>ptr = 0, len = 1, cap = 1\<rparr>" "\<lparr>ptr = 1, len = 1, cap = 1\<rparr>"
      "\<lparr>ptr = 2, len = 3, cap = 3\<rparr>" NoTrans NoTrans 2 2 1 fone 1 2 fzero 2 "\<lambda>p. fone"]
  show ?thesis by simp
qed


text \<open>
  Claim C4.  For views with non-negative sizes, as the entry point hands them over, the
  planner returns as contraction length the column count of A when A is not transposed
  and its row count when it is, and as number of parallel blocks the product of the
  output's row and column counts each divided by the block size and rounded up, for all
  four combinations of the flags.
\<close>

theorem computeNumBlocks_spec:
  assumes "0 \<le> rows a" "0 \<le> cols a" "0 \<le> rows b" "0 \<le> cols b"
  shows "computeNumBlocks a b aTrans bTrans =
     (if aTrans then rows a else cols a,
      \<lceil>of_int (if aTrans then cols a else rows a) / (of_int blockSize :: real)\<rceil> *
      \<lceil>of_int (if bTrans then rows b else cols b) / (of_int blockSize :: real)\<rceil>)"
  using assms by (simp add: computeNumBlocks_def Let_def numBlocks_ceiling blockSize_def)

theorem computeNumBlocks_spec_witness:
  "(0::int) \<le> 130 \<and> (0::int) \<le> 70 \<and>
   computeNumBlocks \<lparr>data = \<lparr>ptr = 0, len = 9100, cap = 9100\<rparr>, rows = 70, cols = 130, stride = 130\<rparr>
     \<lparr>data = \<lparr>ptr = 9100, len = 9100, cap = 9100\<rparr>, rows = 130, cols = 70, stride = 70\<rparr> True True =
     (70, \<lceil>130 / (of_int blockSize :: real)\<rceil> * \<lceil>130 / (of_int blockSize :: real)\<rceil>)"
  using computeNumBlocks_spec [of "\<lparr>data = \<lparr>ptr = 0, len = 9100, cap = 9100\<rparr>, rows = 70, cols = 130, stride = 130\<rparr>"
      "\<lparr>data = \<lparr>ptr = 9100, len = 9100, cap = 9100\<rparr>, rows = 130, cols = 70, stride = 70\<rparr>" True True]
  by simp

subsection \<open>Two runs side by side\<close>

lemma sim_same: "heap_approx h1 h2 \<Longrightarrow> sim (e, h1) (e, h2)"
  by (simp add: sim_def)

lemma sim_then_do:
  assumes "sim r1 r2" and "\<And>h1 h2. heap_approx h1 h2 \<Longrightarrow> sim (f h1) (g h2)"
  shows "sim (then_do r1 f) (then_do r2 g)"
proof (cases "fst r2")
  case None
  with assms(1) have "fst r1 = None" "heap_approx (snd r1) (snd r2)" by (simp_all add: sim_def)
  with None assms(2) show ?thesis by (simp add: then_do_def)
next
  case (Some e)
  then show ?thesis by (simp add: then_do_def sim_def)
qed

lemma sim_for_each:
  assumes "heap_approx h1 h2"
    and "\<And>x h1 h2. x \<in> set xs \<Longrightarrow> heap_approx h1 h2 \<Longrightarrow> sim (f x h1) (g x h2)"
  shows "sim (for_each xs f h1) (for_each xs g h2)"
  using assms
proof (induction xs arbitrary: h1 h2)
  case Nil
  then show ?case by (simp add: sim_def)
next
  case (Cons x xs)
  show ?case unfolding for_each.simps
    by (rule sim_then_do) (simp_all add: Cons)
qed

lemma sim_with_value:
  assumes "\<And>s. r = Inr s \<Longrightarrow> sim (f s h1) (g s h2)"
  shows "sim (with_value r f h1) (with_value r g h2)"
  using assms by (cases r) (simp_all add: sim_def)

lemma sim_add_at:
  assumes "heap_approx h1 h2" "approx x y"
  shows "sim (add_at s j x h1) (add_at s j y h2)"
  using assms by (auto simp: add_at_def sim_def heap_approx_def intro: approx_fadd)

lemma touched_refl: "touched h (e, h)"
  by (simp add: touched_def reach_refl)

lemma touched_then_do:
  assumes "touched h r" and "\<And>h'. touched h' (f h')"
  shows "touched h (then_do r f)"
proof (cases "fst r")
  case None
  from assms(2) [of "snd r"] assms(1) have "reach UNIV {x. zero_or_nan x} h (snd (f (snd r)))"
    unfolding touched_def by (rule reach_trans)
  with None show ?thesis by (simp add: then_do_def touched_def)
next
  case (Some e)
  with assms(1) show ?thesis by (simp add: then_do_def touched_def)
qed

lemma touched_for_each:
  assumes "\<And>x h. x \<in> set xs \<Longrightarrow> touched h (f x h)"
  shows "touched h (for_each xs f h)"
  using assms
proof (induction xs arbitrary: h)
  case Nil
  then show ?case by (simp add: touched_refl)
next
  case (Cons x xs)
  show ?case unfolding for_each.simps
    by (rule touched_then_do) (simp_all add: Cons)
qed

lemma touched_with_value:
  assumes "\<And>s. r = Inr s \<Longrightarrow> touched h (f s h)"
  shows "touched h (with_value r f h)"
  using assms by (cases r) (simp_all add: touched_refl)

lemma touched_add_at: "zero_or_nan x \<Longrightarrow> touched h (add_at s j x h)"
  by (auto simp: add_at_def touched_def intro: reach.intros)

lemma approx_reach:
  assumes "reach UNIV {x. zero_or_nan x} h2 h2'" and "heap_approx h1 h2"
  shows "heap_approx h1 h2'"
  using assms
  by (induction rule: reach.induct) (auto simp: heap_approx_def intro: approx_fadd_zn)

lemma sim_right_only: "heap_approx h1 h2 \<Longrightarrow> touched h2 r2 \<Longrightarrow> sim (None, h1) r2"
  by (simp add: sim_def touched_def approx_reach)

lemma sim_guarded:
  assumes "heap_approx h1 h2" and "approx t1 t2"
    and "\<not> is_zero t1 \<Longrightarrow> sim r1 r2"
    and "zero_or_nan t2 \<Longrightarrow> touched h2 r2"
  shows "sim (if \<not> feq t1 fzero then r1 else (None, h1))
             (if \<not> feq t2 fzero then r2 else (None, h2))"
    and "sim (if \<not> feq t1 fzero then r1 else (None, h1)) r2"
proof -
  show "sim (if \<not> feq t1 fzero then r1 else (None, h1)) r2"
  proof (cases "is_zero t1")
    case True
    with assms(2) have "zero_or_nan t2" by (rule approx_zero_zn)
    with assms(1,4) True show ?thesis by (simp add: feq_fzero sim_right_only)
  next
    case False
    with assms(3) show ?thesis by (simp add: feq_fzero)
  qed
  then show "sim (if \<not> feq t1 fzero then r1 else (None, h1))
             (if \<not> feq t2 fzero then r2 else (None, h2))"
    using assms(1,2) approx_nonzero [OF assms(2)]
    by (auto simp: feq_fzero sim_same)
qed

lemma heap_approxD: "heap_approx h1 h2 \<Longrightarrow> approx (h1 p) (h2 p)"
  by (simp add: heap_approx_def)

lemma zn_NaN: "is_nan x \<Longrightarrow> zero_or_nan x" and zn_zero: "is_zero x \<Longrightarrow> zero_or_nan x"
  by (simp_all add: zero_or_nan_def)

lemma approx_scaled: "heap_approx h1 h2 \<Longrightarrow> approx (fmul alpha (h1 p)) (fmul alpha (h2 p))"
  by (intro approx_fmul approx_refl heap_approxD)

lemma approx_term:
  "heap_approx h1 h2 \<Longrightarrow> heap_approx k1 k2 \<Longrightarrow>
   approx (fmul (fmul alpha (h1 p)) (k1 q)) (fmul (fmul alpha (h2 p)) (k2 q))"
  by (intro approx_fmul approx_refl heap_approxD)

lemma NotNot_sim:
  assumes "heap_approx h1 h2"
  shows "sim (dgemmSerialNotNot a b c alpha h1) (dgemmSerialNotNot a b c alpha h2)"
  unfolding dgemmSerialNotNot_def debug_def Let_def
  apply simp
  apply (rule sim_for_each [OF assms])
  apply (rule sim_with_value)
  apply (rule sim_with_value)
  apply (rule sim_for_each, assumption)
  apply (rule sim_guarded(1))
     apply assumption
    apply (erule approx_scaled)
   apply (rule sim_with_value)
   apply (rule sim_for_each, assumption)
   apply (rule sim_add_at, assumption)
   apply (erule (1) approx_term)
  apply (rule touched_with_value)
  apply (rule touched_for_each)
  apply (rule touched_add_at)
  apply (erule fmul_zn_left)
  done

subsection \<open>The kernels without the short-circuit\<close>

lemma NotNot_noskip_ok:
  assumes a: "well_formed a" and b: "well_formed b" and c: "well_formed c"
    and dims: "cols a \<le> rows b" "rows a \<le> rows c" "cols b \<le> cols c"
  shows "ok (region c) (terms alpha) h (dgemmSerialNotNot_noskip a b c alpha h)"
  unfolding dgemmSerialNotNot_noskip_def Let_def using dims
  by (auto intro!: ok_for_each ok_refl ok_add_at in_region terms_I1
           simp: reslice_row [OF a] reslice_row [OF b] reslice_row [OF c])

lemma TransNot_noskip_ok:
  assumes a: "well_formed a" and b: "well_formed b" and c: "well_formed c"
    and dims: "rows a \<le> rows b" "cols a \<le> rows c" "cols b \<le> cols c"
  shows "ok (region c) (terms alpha) h (dgemmSerialTransNot_noskip a b c alpha h)"
  unfolding dgemmSerialTransNot_noskip_def Let_def using dims
  by (auto intro!: ok_for_each ok_refl ok_add_at in_region terms_I1
           simp: reslice_row [OF a] reslice_row [OF b] reslice_row [OF c])

lemma TransTrans_noskip_ok:
  assumes a: "well_formed a" and b: "well_formed b" and c: "well_formed c"
    and dims: "rows a \<le> cols b" "cols a \<le> rows c" "rows b \<le> cols c"
  shows "ok (region c) (terms alpha) h (dgemmSerialTransTrans_noskip a b c alpha h)"
  unfolding dgemmSerialTransTrans_noskip_def Let_def using dims
  by (auto intro!: ok_for_each ok_refl ok_add_at in_region terms_I1
           simp: reslice_row [OF a] reslice_row [OF b] reslice_row [OF c]
                 index_bounds [OF b])

lemma dgemmSerial_noskip_ok:
  assumes "well_formed a" "well_formed b" "well_formed c" "dims_ok tA tB a b c"
  shows "ok (region c) (terms alpha) h (dgemmSerial_noskip tA tB a b c alpha h)"
  using assms NotNot_noskip_ok [of a b c alpha h] TransNot_noskip_ok [of a b c alpha h]
    NotTrans_ok [of a b c alpha h] TransTrans_noskip_ok [of a b c alpha h]
  unfolding dgemmSerial_noskip_def dims_ok_def by (auto split: if_splits)

lemma NotNot_noskip_sim:
  assumes "heap_approx h1 h2"
  shows "sim (dgemmSerialNotNot a b c alpha h1) (dgemmSerialNotNot_noskip a b c alpha h2)"
  unfolding dgemmSerialNotNot_def dgemmSerialNotNot_noskip_def debug_def Let_def
  apply simp
  apply (rule sim_for_each [OF assms])
  apply (rule sim_with_value)
  apply (rule sim_with_value)
  apply (rule sim_for_each, assumption)
  apply (rule sim_guarded(2))
     apply assumption
    apply (erule approx_scaled)
   apply (rule sim_with_value)
   apply (rule sim_for_each, assumption)
   apply (rule sim_add_at, assumption)
   apply (erule (1) approx_term)
  apply (rule touched_with_value)
  apply (rule touched_for_each)
  apply (rule touched_add_at)
  apply (erule fmul_zn_left)
  done

lemma TransNot_sim:
  assumes "heap_approx h1 h2"
  shows "sim (dgemmSerialTransNot a b c alpha h1) (dgemmSerialTransNot a b c alpha h2)"
  unfolding dgemmSerialTransNot_def debug_def Let_def
  apply simp
  apply (rule sim_for_each [OF assms])
  apply (rule sim_with_value)
  apply (rule sim_with_value)
  apply (rule sim_for_each, assumption)
  apply (rule sim_with_value)
  apply (rule sim_guarded(1))
     apply assumption
    apply (erule approx_scaled)
   apply (rule sim_for_each, assumption)
   apply (rule sim_add_at, assumption)
   apply (erule (1) approx_term)
  apply (rule touched_for_each)
  apply (rule touched_add_at)
  apply (erule fmul_zn_left)
  done

lemma TransNot_noskip_sim:
  assumes "heap_approx h1 h2"
  shows "sim (dgemmSerialTransNot a b c alpha h1) (dgemmSerialTransNot_noskip a b c alpha h2)"
  unfolding dgemmSerialTransNot_def dgemmSerialTransNot_noskip_def debug_def Let_def
  apply simp
  apply (rule sim_for_each [OF assms])
  apply (rule sim_with_value)
  apply (rule sim_with_value)
  apply (rule sim_for_each, assumption)
  apply (rule sim_with_value)
  apply (rule sim_guarded(2))
     apply assumption
    apply (erule approx_scaled)
   apply (rule sim_for_each, assumption)
   apply (rule sim_add_at, assumption)
   apply (erule (1) approx_term)
  apply (rule touched_for_each)
  apply (rule touched_add_at)
  apply (erule fmul_zn_left)
  done

lemma sim_index_guard:
  assumes "sim r1 r2"
  shows "sim (if P then r1 else (Some e, h1)) (if P then r2 else (Some e, h2))"
  using assms by (simp add: sim_def)

lemma touched_index_guard:
  assumes "touched h r"
  shows "touched h (if P then r else (Some e, h))"
  using assms by (simp add: touched_refl)

lemma TransTrans_sim:
  assumes "heap_approx h1 h2"
  shows "sim (dgemmSerialTransTrans a b c alpha h1) (dgemmSerialTransTrans a b c alpha h2)"
  unfolding dgemmSerialTransTrans_def debug_def Let_def
  apply simp
  apply (rule sim_for_each [OF assms])
  apply (rule sim_with_value)
  apply (rule sim_for_each, assumption)
  apply (rule sim_with_value)
  apply (rule sim_guarded(1))
     apply assumption
    apply (erule heap_approxD)
   apply (rule sim_for_each, assumption)
   apply (rule sim_index_guard)
   apply (rule sim_add_at, assumption)
   apply (erule (1) approx_term)
  apply (rule touched_for_each)
  apply (rule touched_index_guard)
  apply (rule touched_add_at)
  apply (rule fmul_zn_left)
  apply (erule fmul_zn_right)
  done

lemma TransTrans_noskip_sim:
  assumes "heap_approx h1 h2"
  shows "sim (dgemmSerialTransTrans a b c alpha h1) (dgemmSerialTransTrans_noskip a b c alpha h2)"
  unfolding dgemmSerialTransTrans_def dgemmSerialTransTrans_noskip_def debug_def Let_def
  apply simp
  apply (rule sim_for_each [OF assms])
  apply (rule sim_with_value)
  apply (rule sim_for_each, assumption)
  apply (rule sim_with_value)
  apply (rule sim_guarded(2))
     apply assumption
    apply (erule heap_approxD)
   apply (rule sim_for_each, assumption)
   apply (rule sim_index_guard)
   apply (rule sim_add_at, assumption)
   apply (erule (1) approx_term)
  apply (rule touched_for_each)
  apply (rule touched_index_guard)
  apply (rule touched_add_at)
  apply (rule fmul_zn_left)
  apply (erule fmul_zn_right)
  done

lemma dot_sim:
  assumes "heap_approx h1 h2" "approx t1 t2"
  shows "(\<exists>e. dot atmp brow ls t1 h1 = Inl e \<and> dot atmp brow ls t2 h2 = Inl e) \<or>
         (\<exists>u1 u2. dot atmp brow ls t1 h1 = Inr u1 \<and> dot atmp brow ls t2 h2 = Inr u2 \<and> approx u1 u2)"
  using assms(2)
proof (induction ls arbitrary: t1 t2)
  case Nil
  then show ?case by simp
next
  case (Cons l ls)
  have "approx (fadd t1 (fmul (h1 (ptr atmp + l)) (h1 (ptr brow + l))))
               (fadd t2 (fmul (h2 (ptr atmp + l)) (h2 (ptr brow + l))))"
    by (intro approx_fadd approx_fmul heap_approxD assms(1) Cons.prems)
  from Cons.IH [OF this] show ?case by (simp add: Let_def)
qed

lemma sim_dot_add:
  assumes "heap_approx h1 h2"
  shows "sim (with_value (dot atmp brow ls fzero h1) (\<lambda>tmp. add_at ctmp j (fmul alpha tmp)) h1)
             (with_value (dot atmp brow ls fzero h2) (\<lambda>tmp. add_at ctmp j (fmul alpha tmp)) h2)"
proof -
  from dot_sim [OF assms approx_refl, of atmp brow ls fzero]
  consider (err) e where "dot atmp brow ls fzero h1 = Inl e" "dot atmp brow ls fzero h2 = Inl e"
    | (val) u1 u2 where "dot atmp brow ls fzero h1 = Inr u1" "dot atmp brow ls fzero h2 = Inr u2"
        "approx u1 u2"
    by blast
  then show ?thesis
  proof cases
    case err
    then show ?thesis by (simp add: sim_def)
  next
    case val
    then show ?thesis by (simp add: sim_add_at [OF assms] approx_fmul approx_refl)
  qed
qed

lemma NotTrans_sim:
  assumes "heap_approx h1 h2"
  shows "sim (dgemmSerialNotTrans a b c alpha h1) (dgemmSerialNotTrans a b c alpha h2)"
  unfolding dgemmSerialNotTrans_def debug_def
  apply simp
  apply (rule sim_for_each [OF assms])
  apply (rule sim_with_value)
  apply (rule sim_with_value)
  apply (rule sim_for_each, assumption)
  apply (rule sim_with_value)
  apply (erule sim_dot_add)
  done

lemma dgemmSerial_sim:
  assumes "heap_approx h1 h2"
  shows "sim (dgemmSerial tA tB a b c alpha h1) (dgemmSerial tA tB a b c alpha h2)"
  unfolding dgemmSerial_def
  by (simp add: NotNot_sim TransNot_sim NotTrans_sim TransTrans_sim assms sim_def [of "(Some _, _)"])

lemma dgemmSerial_noskip_sim:
  assumes "heap_approx h1 h2"
  shows "sim (dgemmSerial tA tB a b c alpha h1) (dgemmSerial_noskip tA tB a b c alpha h2)"
  unfolding dgemmSerial_def dgemmSerial_noskip_def
  by (simp add: NotNot_noskip_sim TransNot_noskip_sim NotTrans_sim TransTrans_noskip_sim assms
      sim_def [of "(Some _, _)"])

lemma heap_approx_refl: "heap_approx h h"
  by (simp add: heap_approx_def approx_refl)

text \<open>
  Claim C6, as amended.  For views that satisfy the kernels' consistency conditions, the
  kernel with its short-circuit and the kernel that runs every inner pass both return
  normally, and every memory cell holds the same number after both (up to the sign of a
  zero) unless it holds NaN after the run without the short-circuit.
\<close>

theorem skip_agrees_unless_nan:
  assumes "well_formed a" "well_formed b" "well_formed c" "dims_ok tA tB a b c"
  shows "fst (dgemmSerial tA tB a b c alpha h) = None \<and>
         fst (dgemmSerial_noskip tA tB a b c alpha h) = None \<and>
         (\<forall>p. same_num (snd (dgemmSerial tA tB a b c alpha h) p)
                       (snd (dgemmSerial_noskip tA tB a b c alpha h) p) \<or>
              is_nan (snd (dgemmSerial_noskip tA tB a b c alpha h) p))"
  using dgemmSerial_ok [OF assms, of alpha h] dgemmSerial_noskip_ok [OF assms, of alpha h]
    dgemmSerial_noskip_sim [OF heap_approx_refl [of h], of tA tB a b c alpha]
  by (simp add: ok_def sim_def heap_approx_def approx_def)

subsection \<open>Independence of the prior contents of C\<close>

lemma tile_worker_sim:
  assumes "heap_approx h1 h2"
  shows "sim (tile_worker tA tB a b c alpha K t h1) (tile_worker tA tB a b c alpha K t h2)"
proof (cases t)
  case (SubMul i j)
  show ?thesis
    unfolding SubMul tile_worker.simps Let_def
    apply (rule sim_with_value)
    apply (rule sim_for_each [OF assms])
    apply (rule sim_with_value)
    apply (rule sim_with_value)
    apply (erule dgemmSerial_sim)
    done
qed

lemma dgemmParallel_sim:
  assumes "heap_approx h1 h2"
  shows "sim (dgemmParallel tA tB a b c alpha h1) (dgemmParallel tA tB a b c alpha h2)"
  unfolding dgemmParallel_def Let_def
  by (auto intro!: dgemmSerial_sim sim_for_each tile_worker_sim assms)

lemma zero_not_one: "is_zero beta \<Longrightarrow> \<not> feq beta fone"
proof (cases beta)
  case (Fin s m e)
  assume "is_zero beta"
  with Fin have "m = 0" by simp
  moreover have "0 < pow2 (0 - min e 0)" by (rule pow2_pos)
  ultimately show ?thesis using Fin by (simp add: fone_def signed_def Let_def)
qed simp_all

lemma scaled_zero:
  assumes "is_zero beta" "p \<in> region cmat" "is_finite (h p)"
  shows "is_zero (scaled cmat beta h p)"
  using assms by (simp add: scaled_def zero_not_one map_region_def fmul_finite_zero)

lemma scaled_approx:
  assumes bz: "is_zero beta"
    and fin: "\<forall>p\<in>region cmat. is_finite (h1 p) \<and> is_finite (h2 p)"
    and same: "\<forall>p. p \<notin> region cmat \<longrightarrow> h1 p = h2 p"
  shows "heap_approx (scaled cmat beta h1) (scaled cmat beta h2)"
  unfolding heap_approx_def
proof
  fix p
  show "approx (scaled cmat beta h1 p) (scaled cmat beta h2 p)"
  proof (cases "p \<in> region cmat")
    case True
    with fin scaled_zero [OF bz True] have "is_zero (scaled cmat beta h1 p)"
      "is_zero (scaled cmat beta h2 p)" by simp_all
    then show ?thesis by (simp add: approx_def same_num_def)
  next
    case False
    with same show ?thesis by (simp add: scaled_frame approx_refl)
  qed
qed

text \<open>
  Claim C1, as amended.  For a valid call with \<open>beta = 0\<close> whose logical region of C holds
  finite values, the beta pass leaves a zero in every element of the region, the product
  is then accumulated onto that zeroed C, and the result does not depend on the prior
  contents: two runs that differ only in the (finite) prior contents of the region
  return normally and leave the same number in every cell, up to the sign of a zero.
\<close>

theorem beta_zero_independent_of_finite_C:
  assumes v: "valid_call tA tB m n k a lda b ldb c ldc"
    and bz: "is_zero beta"
    and fin: "\<forall>p\<in>region (operand_c m n c ldc). is_finite (h1 p) \<and> is_finite (h2 p)"
    and same: "\<forall>p. p \<notin> region (operand_c m n c ldc) \<longrightarrow> h1 p = h2 p"
  shows "fst (Dgemm tA tB m n k alpha a lda b ldb beta c ldc h1) = None \<and>
         fst (Dgemm tA tB m n k alpha a lda b ldb beta c ldc h2) = None \<and>
         (\<forall>p. same_num (snd (Dgemm tA tB m n k alpha a lda b ldb beta c ldc h1) p)
                       (snd (Dgemm tA tB m n k alpha a lda b ldb beta c ldc h2) p)) \<and>
         (\<forall>p\<in>region (operand_c m n c ldc). is_zero (scaled (operand_c m n c ldc) beta h1 p)) \<and>
         Dgemm tA tB m n k alpha a lda b ldb beta c ldc h1 =
           dgemmParallel tA tB (operand_a tA m k a lda) (operand_b tB n k b ldb)
             (operand_c m n c ldc) alpha (scaled (operand_c m n c ldc) beta h1)"
proof -
  let ?D = "\<lambda>h. Dgemm tA tB m n k alpha a lda b ldb beta c ldc h"
  let ?C = "operand_c m n c ldc"
  have fin': "\<forall>p\<in>region ?C. is_finite (h2 p) \<and> is_finite (h1 p)" using fin by blast
  have same': "\<forall>p. p \<notin> region ?C \<longrightarrow> h2 p = h1 p" using same by simp
  have n1: "fst (?D h1) = None" and n2: "fst (?D h2) = None"
    using Dgemm_ok [OF v, of alpha beta] by (simp_all add: ok_def)
  have "sim (?D h1) (?D h2)" "sim (?D h2) (?D h1)"
    unfolding Dgemm_accepts [OF v]
    by (intro dgemmParallel_sim scaled_approx bz fin same fin' same')+
  with n1 n2 have "approx (snd (?D h1) p) (snd (?D h2) p)" "approx (snd (?D h2) p) (snd (?D h1) p)"
    for p by (simp_all add: sim_def heap_approx_def)
  then have "same_num (snd (?D h1) p) (snd (?D h2) p)" for p by (rule approx_sym_same)
  moreover have "\<forall>p\<in>region ?C. is_zero (scaled ?C beta h1 p)"
    using scaled_zero [OF bz] fin by blast
  ultimately show ?thesis using n1 n2 Dgemm_accepts [OF v, of alpha beta h1] by blast
qed

subsection \<open>An empty contraction dimension\<close>

lemma NotNot_k0:
  assumes a: "well_formed a" and c: "well_formed c" and "cols a = 0" "rows a \<le> rows c"
  shows "dgemmSerialNotNot a b c alpha h = (None, h)"
proof -
  have ra: "reslice (data a) (i * stride a) (i * stride a) =
      Inr \<lparr>ptr = ptr (data a) + i * stride a, len = 0, cap = cap (data a) - i * stride a\<rparr>"
    if "0 \<le> i" "i < rows a" for i
    using reslice_row [OF a that] assms(3) by simp
  show ?thesis
    unfolding dgemmSerialNotNot_def debug_def using assms(3,4)
    by (auto intro!: for_each_id simp: ra reslice_row [OF c])
qed

lemma TransNot_k0: "rows a = 0 \<Longrightarrow> dgemmSerialTransNot a b c alpha h = (None, h)"
  by (simp add: dgemmSerialTransNot_def debug_def)

lemma TransTrans_k0: "rows a = 0 \<Longrightarrow> dgemmSerialTransTrans a b c alpha h = (None, h)"
  by (simp add: dgemmSerialTransTrans_def debug_def)

lemma NotTrans_k0:
  assumes a: "well_formed a" and b: "well_formed b" and c: "well_formed c"
    and k0: "cols a = 0" "cols b = 0" and dims: "rows a = rows c" "rows b = cols c"
  shows "dgemmSerialNotTrans a b c alpha h =
           (None, map_region (region c) (\<lambda>v. fadd v (fmul alpha fzero)) h)"
proof -
  have ra: "reslice (data a) (i * stride a) (i * stride a) =
      Inr \<lparr>ptr = ptr (data a) + i * stride a, len = 0, cap = cap (data a) - i * stride a\<rparr>"
    if "0 \<le> i" "i < rows a" for i
    using reslice_row [OF a that] k0 by simp
  have rb: "reslice (data b) (j * stride b) (j * stride b) =
      Inr \<lparr>ptr = ptr (data b) + j * stride b, len = 0, cap = cap (data b) - j * stride b\<rparr>"
    if "0 \<le> j" "j < rows b" for j
    using reslice_row [OF b that] k0 by simp
  have row: "with_value (reslice (data a) (i * stride a) (i * stride a + cols a)) (\<lambda>atmp.
          with_value (reslice (data c) (i * stride c) (i * stride c + cols c)) (\<lambda>ctmp.
            for_each [0..rows b - 1] (\<lambda>j.
              with_value (reslice (data b) (j * stride b) (j * stride b + cols b)) (\<lambda>brow h.
                with_value (dot atmp brow [0..len brow - 1] fzero h) (\<lambda>tmp.
                  add_at ctmp j (fmul alpha tmp)) h)))) h =
        (None, map_region (row_cells c i) (\<lambda>v. fadd v (fmul alpha fzero)) h)"
    if "i \<in> set [0..rows c - 1]" for i h
  proof -
    from that have i: "0 \<le> i" "i < rows c" "i < rows a" using dims by simp_all
    let ?atmp = "\<lparr>ptr = ptr (data a) + i * stride a, len = cols a, cap = cap (data a) - i * stride a\<rparr>"
    let ?ctmp = "\<lparr>ptr = ptr (data c) + i * stride c, len = cols c, cap = cap (data c) - i * stride c\<rparr>"
    have "for_each [0..cols c - 1] (\<lambda>j.
              with_value (reslice (data b) (j * stride b) (j * stride b + cols b)) (\<lambda>brow h.
                with_value (dot ?atmp brow [0..len brow - 1] fzero h) (\<lambda>tmp.
                  add_at ?ctmp j (fmul alpha tmp)) h)) h =
        (None, map_region (\<Union>j\<in>set [0..cols c - 1]. {ptr ?ctmp + j})
                 (\<lambda>v. fadd v (fmul alpha fzero)) h)"
      using dims k0 by (intro for_each_map_region) (simp_all add: rb add_at_map)
    then show ?thesis
      using dims k0 by (simp add: ra [OF i(1,3)] reslice_row [OF c i(1,2)] row_cells_def)
  qed
  have "for_each [0..rows c - 1] (\<lambda>i.
          with_value (reslice (data a) (i * stride a) (i * stride a + cols a)) (\<lambda>atmp.
          with_value (reslice (data c) (i * stride c) (i * stride c + cols c)) (\<lambda>ctmp.
            for_each [0..rows b - 1] (\<lambda>j.
              with_value (reslice (data b) (j * stride b) (j * stride b + cols b)) (\<lambda>brow h.
                with_value (dot atmp brow [0..len brow - 1] fzero h) (\<lambda>tmp.
                  add_at ctmp j (fmul alpha tmp)) h))))) h =
      (None, map_region (\<Union>i\<in>set [0..rows c - 1]. row_cells c i)
               (\<lambda>v. fadd v (fmul alpha fzero)) h)"
    by (rule for_each_map_region) (simp_all add: row row_cells_disjoint [OF c])
  then show ?thesis
    unfolding dgemmSerialNotTrans_def debug_def region_rows [of c] dims(1) by simp
qed

lemma block_starts_empty: "block_starts 0 0 = []"
  by (simp add: block_starts.simps)

lemma tile_worker_k0:
  assumes c: "well_formed c" and t: "t \<in> set (tile_tasks c)"
  shows "tile_worker tA tB a b c alpha 0 t h = (None, h)"
proof -
  obtain i j where t_eq: "t = SubMul i j" by (cases t)
  with t have ij: "0 \<le> i" "i < rows c" "0 \<le> j" "j < cols c"
    using tile_tasks_bounds by blast+
  define leni where "leni = (if i + blockSize > rows c then rows c - i else blockSize)"
  define lenj where "lenj = (if j + blockSize > cols c then cols c - j else blockSize)"
  have li: "1 \<le> leni" "i + leni \<le> rows c" and lj: "1 \<le> lenj" "j + lenj \<le> cols c"
    using ij by (auto simp: leni_def lenj_def blockSize_def)
  have vc: "view c i j leni lenj = Inr (sub_view c i j leni lenj)"
    using view_eq [OF c ij(1,3) li(1) _ li(2) lj(2)] lj by simp
  show ?thesis
    unfolding t_eq tile_worker.simps Let_def leni_def [symmetric] lenj_def [symmetric]
    by (simp add: vc block_starts_empty)
qed

lemma dgemmParallel_k0:
  assumes a: "well_formed a" and b: "well_formed b" and c: "well_formed c" and d: "dims_ok tA tB a b c"
    and k0: "contraction tA a = 0"
  shows "dgemmParallel tA tB a b c alpha h =
     (None, if tA = NoTrans \<and> tB = Trans \<and> snd (computeNumBlocks a b (tA = Trans) (tB = Trans)) < minParBlock
            then map_region (region c) (added_zero_product alpha) h else h)"
proof (cases "snd (computeNumBlocks a b (tA = Trans) (tB = Trans)) < minParBlock")
  case False
  then show ?thesis
    unfolding dgemmParallel_def Let_def computeNumBlocks_fst k0
    by (simp add: for_each_id tile_worker_k0 [OF c])
next
  case True
  from d k0 have flags: "tA = NoTrans \<or> tA = Trans" "tB = NoTrans \<or> tB = Trans"
    and inner: "(if tB = Trans then cols b else rows b) = 0"
    and outer: "(if tA = Trans then cols a else rows a) = rows c"
      "(if tB = Trans then rows b else cols b) = cols c"
    by (auto simp: dims_ok_def contraction_def)
  have "dgemmSerial tA tB a b c alpha h =
      (None, if tA = NoTrans \<and> tB = Trans then map_region (region c) (added_zero_product alpha) h else h)"
    using flags inner outer k0 NotNot_k0 [OF a c, of b alpha h] NotTrans_k0 [OF a b c, of alpha h]
    unfolding dgemmSerial_def added_zero_product_def [abs_def]
    by (auto simp: contraction_def TransNot_k0 TransTrans_k0)
  with True show ?thesis by (simp add: dgemmParallel_def Let_def)
qed

lemma added_zero_product_same:
  "is_finite alpha \<Longrightarrow> same_num (added_zero_product alpha v) v"
  by (cases alpha; cases v) (auto simp: added_zero_product_def fzero_def same_num_def)

text \<open>
  Claim C10, as amended.  A valid call with \<open>k = 0\<close> returns normally.  Cells outside the
  logical region of C keep their values; so does all of memory when \<open>m = 0\<close> or \<open>n = 0\<close>.
  Every element of C is multiplied by beta when \<open>beta \<noteq> 1\<close> and is left alone when
  \<open>beta = 1\<close>; nothing more happens to it, except with A not transposed and B transposed on
  the serial path (fewer than \<open>minParBlock\<close> blocks), where the kernel also adds
  \<open>alpha * 0\<close> to every element, which keeps the number (up to the sign of a zero) when
  alpha is finite.
\<close>

theorem Dgemm_k_zero:
  assumes v: "valid_call tA tB m n 0 a lda b ldb c ldc"
  shows "Dgemm tA tB m n 0 alpha a lda b ldb beta c ldc h =
     (None,
      if tA = NoTrans \<and> tB = Trans \<and>
         snd (computeNumBlocks (operand_a tA m 0 a lda) (operand_b tB n 0 b ldb)
                (tA = Trans) (tB = Trans)) < minParBlock
      then map_region (region (operand_c m n c ldc)) (added_zero_product alpha)
             (scaled (operand_c m n c ldc) beta h)
      else scaled (operand_c m n c ldc) beta h) \<and>
     (\<forall>p. p \<notin> region (operand_c m n c ldc) \<longrightarrow>
          snd (Dgemm tA tB m n 0 alpha a lda b ldb beta c ldc h) p = h p) \<and>
     (m = 0 \<or> n = 0 \<longrightarrow> snd (Dgemm tA tB m n 0 alpha a lda b ldb beta c ldc h) = h) \<and>
     (\<forall>x. is_finite alpha \<longrightarrow> same_num (added_zero_product alpha x) x)"
proof -
  let ?C = "operand_c m n c ldc"
  let ?r = "Dgemm tA tB m n 0 alpha a lda b ldb beta c ldc h"
  have k0: "contraction tA (operand_a tA m 0 a lda) = 0"
    by (simp add: contraction_def operand_a_def)
  have eq: "?r = (None,
      if tA = NoTrans \<and> tB = Trans \<and>
         snd (computeNumBlocks (operand_a tA m 0 a lda) (operand_b tB n 0 b ldb)
                (tA = Trans) (tB = Trans)) < minParBlock
      then map_region (region ?C) (added_zero_product alpha) (scaled ?C beta h)
      else scaled ?C beta h)"
    unfolding Dgemm_accepts [OF v] by (rule dgemmParallel_k0 [OF valid_wf [OF v] k0])
  have frame: "snd ?r p = h p" if "p \<notin> region ?C" for p
    using that by (simp add: eq map_region_def scaled_frame)
  have "region ?C = {}" if "m = 0 \<or> n = 0"
    using that by (auto simp: region_def operand_c_def)
  then have "snd ?r = h" if "m = 0 \<or> n = 0"
    using that frame by (auto simp: fun_eq_iff)
  with eq frame added_zero_product_same show ?thesis by blast
qed

subsection \<open>The tiles partition the output\<close>

















lemmas eval_simps =
  Dgemm_def check_def Let_def scale_c_def with_value_def reslice_def mul_at_def add_at_def
  then_do_def dgemmParallel_def computeNumBlocks_def numBlocks_def blockSize_def minParBlock_def
  dgemmSerial_def dgemmSerialNotNot_def dgemmSerialNotTrans_def dgemmSerialNotNot_noskip_def
  debug_def heap_of_def f64_def fzero_def fone_def round64_def bitlen.simps pow2.simps signed_def
  upto_rec1 signed_divide_int_def signed_modulo_int_def

subsection \<open>Instances\<close>

lemma region_single:
  "region (operand_c 1 1 \<lparr>ptr = 2, len = 1, cap = 1\<rparr> 1) = {2}"
proof -
  have "2 \<in> region (operand_c 1 1 \<lparr>ptr = 2, len = 1, cap = 1\<rparr> 1)"
    using in_region [of 0 "operand_c 1 1 \<lparr>ptr = 2, len = 1, cap = 1\<rparr> 1" 0]
    by (simp add: operand_c_def)
  moreover have "region (operand_c 1 1 \<lparr>ptr = 2, len = 1, cap = 1\<rparr> 1) \<subseteq> {2}"
    by (auto simp: region_def operand_c_def)
  ultimately show ?thesis by blast
qed

theorem beta_zero_independent_of_finite_C_witness:
  "valid_call NoTrans NoTrans 1 1 1 \<lparr>ptr = 0, len = 1, cap = 1\<rparr> 1 \<lparr>ptr = 1, len = 1, cap = 1\<rparr> 1
     \<lparr>ptr = 2, len = 1, cap = 1\<rparr> 1 \<and>
   is_zero fzero \<and> is_finite fone \<and> is_finite fzero \<and>
   fst (Dgemm NoTrans NoTrans 1 1 1 fone \<lparr>ptr = 0, len = 1, cap = 1\<rparr> 1
          \<lparr>ptr = 1, len = 1, cap = 1\<rparr> 1 fzero \<lparr>ptr = 2, len = 1, cap = 1\<rparr> 1 (\<lambda>p. fone)) = None \<and>
   (\<forall>p. same_num
      (snd (Dgemm NoTrans NoTrans 1 1 1 fone \<lparr>ptr = 0, len = 1, cap = 1\<rparr> 1
          \<lparr>ptr = 1, len = 1, cap = 1\<rparr> 1 fzero \<lparr>ptr = 2, len = 1, cap = 1\<rparr> 1 (\<lambda>p. fone)) p)
      (snd (Dgemm NoTrans NoTrans 1 1 1 fone \<lparr>ptr = 0, len = 1, cap = 1\<rparr> 1
          \<lparr>ptr = 1, len = 1, cap = 1\<rparr> 1 fzero \<lparr>ptr = 2, len = 1, cap = 1\<rparr> 1
          (\<lambda>p. if p = 2 then fzero else fone)) p))"
proof -
  have v: "valid_call NoTrans NoTrans 1 1 1 \<lparr>ptr = 0, len = 1, cap = 1\<rparr> 1
      \<lparr>ptr = 1, len = 1, cap = 1\<rparr> 1 \<lparr>ptr = 2, len = 1, cap = 1\<rparr> 1"
    by (simp add: valid_call_def checks_pass_def check_def operand_a_def operand_b_def operand_c_def)
  have z: "is_zero fzero" by (simp add: fzero_def)
  have fin: "\<forall>p\<in>region (operand_c 1 1 \<lparr>ptr = 2, len = 1, cap = 1\<rparr> 1).
      is_finite ((\<lambda>p. fone) p) \<and> is_finite ((\<lambda>p. if p = 2 then fzero else fone) p)"
    by (simp add: fone_def fzero_def)
  have same: "\<forall>p. p \<notin> region (operand_c 1 1 \<lparr>ptr = 2, len = 1, cap = 1\<rparr> 1) \<longrightarrow>
      (\<lambda>p. fone) p = (\<lambda>p. if p = 2 then fzero else fone) p"
    by (simp add: region_single)
  have f: "is_finite fone" "is_finite fzero" by (simp_all add: fone_def fzero_def)
  from beta_zero_independent_of_finite_C [OF v z fin same, of fone] v z f
  show ?thesis by blast
qed

theorem skip_agrees_unless_nan_witness:
  "well_formed \<lparr>data = \<lparr>ptr = 0, len = 1, cap = 1\<rparr>, rows = 1, cols = 1, stride = 1\<rparr> \<and>
   well_formed \<lparr>data = \<lparr>ptr = 1, len = 1, cap = 1\<rparr>, rows = 1, cols = 1, stride = 1\<rparr> \<and>
   well_formed \<lparr>data = \<lparr>ptr = 2, len = 1, cap = 1\<rparr>, rows = 1, cols = 1, stride = 1\<rparr> \<and>
   dims_ok NoTrans NoTrans
     \<lparr>data = \<lparr>ptr = 0, len = 1, cap = 1\<rparr>, rows = 1, cols = 1, stride = 1\<rparr>
     \<lparr>data = \<lparr>ptr = 1, len = 1, cap = 1\<rparr>, rows = 1, cols = 1, stride = 1\<rparr>
     \<lparr>data = \<lparr>ptr = 2, len = 1, cap = 1\<rparr>, rows = 1, cols = 1, stride = 1\<rparr> \<and>
   fst (dgemmSerial_noskip NoTrans NoTrans
     \<lparr>data = \<lparr>ptr = 0, len = 1, cap = 1\<rparr>, rows = 1, cols = 1, stride = 1\<rparr>
     \<lparr>data = \<lparr>ptr = 1, len = 1, cap = 1\<rparr>, rows = 1, cols = 1, stride = 1\<rparr>
     \<lparr>data = \<lparr>ptr = 2, len = 1, cap = 1\<rparr>, rows = 1, cols = 1, stride = 1\<rparr>
     fone (heap_of [f64 0, Infty False, f64 1])) = None \<and>
   (\<forall>p. same_num
      (snd (dgemmSerial NoTrans NoTrans
         \<lparr>data = \<lparr>ptr = 0, len = 1, cap = 1\<rparr>, rows = 1, cols = 1, stride = 1\<rparr>
         \<lparr>data = \<lparr>ptr = 1, len = 1, cap = 1\<rparr>, rows = 1, cols = 1, stride = 1\<rparr>
         \<lparr>data = \<lparr>ptr = 2, len = 1, cap = 1\<rparr>, rows = 1, cols = 1, stride = 1\<rparr>
         fone (heap_of [f64 0, Infty False, f64 1])) p)
      (snd (dgemmSerial_noskip NoTrans NoTrans
         \<lparr>data = \<lparr>ptr = 0, len = 1, cap = 1\<rparr>, rows = 1, cols = 1, stride = 1\<rparr>
         \<lparr>data = \<lparr>ptr = 1, len = 1, cap = 1\<rparr>, rows = 1, cols = 1, stride = 1\<rparr>
         \<lparr>data = \<lparr>ptr = 2, len = 1, cap = 1\<rparr>, rows = 1, cols = 1, stride = 1\<rparr>
         fone (heap_of [f64 0, Infty False, f64 1])) p) \<or>
    is_nan
      (snd (dgemmSerial_noskip NoTrans NoTrans
         \<lparr>data = \<lparr>ptr = 0, len = 1, cap = 1\<rparr>, rows = 1, cols = 1, stride = 1\<rparr>
         \<lparr>data = \<lparr>ptr = 1, len = 1, cap = 1\<rparr>, rows = 1, cols = 1, stride = 1\<rparr>
         \<lparr>data = \<lparr>ptr = 2, len = 1, cap = 1\<rparr>, rows = 1, cols = 1, stride = 1\<rparr>
         fone (heap_of [f64 0, Infty False, f64 1])) p))"
proof -
  have w: "well_formed \<lparr>data = \<lparr>ptr = 0, len = 1, cap = 1\<rparr>, rows = 1, cols = 1, stride = 1\<rparr>"
    "well_formed \<lparr>data = \<lparr>ptr = 1, len = 1, cap = 1\<rparr>, rows = 1, cols = 1, stride = 1\<rparr>"
    "well_formed \<lparr>data = \<lparr>ptr = 2, len = 1, cap = 1\<rparr>, rows = 1, cols = 1, stride = 1\<rparr>"
    by (simp_all add: well_formed_def check_def)
  have d: "dims_ok NoTrans NoTrans
     \<lparr>data = \<lparr>ptr = 0, len = 1, cap = 1\<rparr>, rows = 1, cols = 1, stride = 1\<rparr>
     \<lparr>data = \<lparr>ptr = 1, len = 1, cap = 1\<rparr>, rows = 1, cols = 1, stride = 1\<rparr>
     \<lparr>data = \<lparr>ptr = 2, len = 1, cap = 1\<rparr>, rows = 1, cols = 1, stride = 1\<rparr>"
    by (simp add: dims_ok_def)
  from skip_agrees_unless_nan [OF w d, of fone "heap_of [f64 0, Infty False, f64 1]"] w d
  show ?thesis by blast
qed


theorem Dgemm_k_zero_witness:
  "valid_call NoTrans Trans 1 1 0 \<lparr>ptr = 0, len = 0, cap = 0\<rparr> 1 \<lparr>ptr = 0, len = 0, cap = 0\<rparr> 1
     \<lparr>ptr = 0, len = 1, cap = 1\<rparr> 1 \<and>
   fst (Dgemm NoTrans Trans 1 1 0 fone \<lparr>ptr = 0, len = 0, cap = 0\<rparr> 1
          \<lparr>ptr = 0, len = 0, cap = 0\<rparr> 1 fone \<lparr>ptr = 0, len = 1, cap = 1\<rparr> 1 (\<lambda>p. fone)) = None \<and>
   5 \<notin> region (operand_c 1 1 \<lparr>ptr = 0, len = 1, cap = 1\<rparr> 1) \<and>
   snd (Dgemm NoTrans Trans 1 1 0 fone \<lparr>ptr = 0, len = 0, cap = 0\<rparr> 1
          \<lparr>ptr = 0, len = 0, cap = 0\<rparr> 1 fone \<lparr>ptr = 0, len = 1, cap = 1\<rparr> 1 (\<lambda>p. fone)) 5 = fone"
proof -
  have v: "valid_call NoTrans Trans 1 1 0 \<lparr>ptr = 0, len = 0, cap = 0\<rparr> 1
      \<lparr>ptr = 0, len = 0, cap = 0\<rparr> 1 \<lparr>ptr = 0, len = 1, cap = 1\<rparr> 1"
    by (simp add: valid_call_def checks_pass_def check_def operand_a_def operand_b_def operand_c_def)
  note k = Dgemm_k_zero [OF v, of fone fone "\<lambda>p. fone"]
  from k [THEN conjunct1]
  have n: "fst (Dgemm NoTrans Trans 1 1 0 fone \<lparr>ptr = 0, len = 0, cap = 0\<rparr> 1
          \<lparr>ptr = 0, len = 0, cap = 0\<rparr> 1 fone \<lparr>ptr = 0, len = 1, cap = 1\<rparr> 1 (\<lambda>p. fone)) = None"
    by simp
  from k [THEN conjunct2, THEN conjunct1]
  have f: "\<forall>p. p \<notin> region (operand_c 1 1 \<lparr>ptr = 0, len = 1, cap = 1\<rparr> 1) \<longrightarrow>
      snd (Dgemm NoTrans Trans 1 1 0 fone \<lparr>ptr = 0, len = 0, cap = 0\<rparr> 1
          \<lparr>ptr = 0, len = 0, cap = 0\<rparr> 1 fone \<lparr>ptr = 0, len = 1, cap = 1\<rparr> 1 (\<lambda>p. fone)) p = fone" .
  have r: "5 \<notin> region (operand_c 1 1 \<lparr>ptr = 0, len = 1, cap = 1\<rparr> 1)"
    by (auto simp: region_def operand_c_def)
  from f r have "snd (Dgemm NoTrans Trans 1 1 0 fone \<lparr>ptr = 0, len = 0, cap = 0\<rparr> 1
          \<lparr>ptr = 0, len = 0, cap = 0\<rparr> 1 fone \<lparr>ptr = 0, len = 1, cap = 1\<rparr> 1 (\<lambda>p. fone)) 5 = fone"
    by blast
  with v n r show ?thesis by (intro conjI)
qed

text \<open>
  Claim C2.  With the 2 by 3 matrix A of rows (1,2,3) and (4,5,6) at addresses 0 to 5, the
  3 by 2 matrix B of rows (7,8), (9,10) and (11,12) at addresses 6 to 11 and an all-zero
  2 by 2 matrix C at addresses 12 to 15, the call with neither operand transposed,
  \<open>alpha = 1\<close> and \<open>beta = 0\<close> returns normally and leaves the rows (58,64) and (139,154)
  in C.
\<close>

theorem Dgemm_concrete_scenario:
  "fst (Dgemm NoTrans NoTrans 2 2 3 (f64 1) \<lparr>ptr = 0, len = 6, cap = 6\<rparr> 3
          \<lparr>ptr = 6, len = 6, cap = 6\<rparr> 2 (f64 0) \<lparr>ptr = 12, len = 4, cap = 4\<rparr> 2
          (heap_of (map f64 [1, 2, 3, 4, 5, 6, 7, 8, 9, 10, 11, 12, 0, 0, 0, 0]))) = None \<and>
   map (snd (Dgemm NoTrans NoTrans 2 2 3 (f64 1) \<lparr>ptr = 0, len = 6, cap = 6\<rparr> 3
          \<lparr>ptr = 6, len = 6, cap = 6\<rparr> 2 (f64 0) \<lparr>ptr = 12, len = 4, cap = 4\<rparr> 2
          (heap_of (map f64 [1, 2, 3, 4, 5, 6, 7, 8, 9, 10, 11, 12, 0, 0, 0, 0]))))
       [12, 13, 14, 15] = map f64 [58, 64, 139, 154]"
  by (simp add: eval_simps)

text \<open>
  Claim C1 fails as stated: with \<open>beta = 0\<close>, A = [1] and B = [1], a prior NaN in C yields
  NaN, while a prior zero yields 1.
\<close>

theorem beta_zero_keeps_nan:
  "snd (Dgemm NoTrans NoTrans 1 1 1 (f64 1) \<lparr>ptr = 0, len = 1, cap = 1\<rparr> 1
          \<lparr>ptr = 1, len = 1, cap = 1\<rparr> 1 (f64 0) \<lparr>ptr = 2, len = 1, cap = 1\<rparr> 1
          (heap_of [f64 1, f64 1, NaN])) 2 = NaN \<and>
   snd (Dgemm NoTrans NoTrans 1 1 1 (f64 1) \<lparr>ptr = 0, len = 1, cap = 1\<rparr> 1
          \<lparr>ptr = 1, len = 1, cap = 1\<rparr> 1 (f64 0) \<lparr>ptr = 2, len = 1, cap = 1\<rparr> 1
          (heap_of [f64 1, f64 1, f64 0])) 2 = f64 1"
  by (simp add: eval_simps)


text \<open>
  Claim C6 fails as stated: with \<open>alpha = 1\<close>, A = [0], B = [+Inf] and C = [1] the kernel
  skips the pass and leaves 1 in C, while running the pass adds \<open>0 * Inf\<close> and leaves NaN.
\<close>

theorem skip_differs_on_infinite_B:
  "snd (dgemmSerialNotNot
          \<lparr>data = \<lparr>ptr = 0, len = 1, cap = 1\<rparr>, rows = 1, cols = 1, stride = 1\<rparr>
          \<lparr>data = \<lparr>ptr = 1, len = 1, cap = 1\<rparr>, rows = 1, cols = 1, stride = 1\<rparr>
          \<lparr>data = \<lparr>ptr = 2, len = 1, cap = 1\<rparr>, rows = 1, cols = 1, stride = 1\<rparr>
          (f64 1) (heap_of [f64 0, Infty False, f64 1])) 2 = f64 1 \<and>
   snd (dgemmSerialNotNot_noskip
          \<lparr>data = \<lparr>ptr = 0, len = 1, cap = 1\<rparr>, rows = 1, cols = 1, stride = 1\<rparr>
          \<lparr>data = \<lparr>ptr = 1, len = 1, cap = 1\<rparr>, rows = 1, cols = 1, stride = 1\<rparr>
          \<lparr>data = \<lparr>ptr = 2, len = 1, cap = 1\<rparr>, rows = 1, cols = 1, stride = 1\<rparr>
          (f64 1) (heap_of [f64 0, Infty False, f64 1])) 2 = NaN"
  by (simp add: eval_simps)

text \<open>
  Claim C10 fails as stated: with \<open>k = 0\<close>, A not transposed, B transposed, \<open>alpha = +Inf\<close>,
  \<open>beta = 1\<close> and C = [1] the call adds \<open>alpha * 0\<close> and leaves NaN in C.
\<close>

theorem k_zero_adds_alpha_times_zero:
  "heap_of [f64 1] 0 = f64 1 \<and>
   Dgemm NoTrans Trans 1 1 0 (Infty False) \<lparr>ptr = 0, len = 0, cap = 0\<rparr> 1
          \<lparr>ptr = 0, len = 0, cap = 0\<rparr> 1 (f64 1) \<lparr>ptr = 0, len = 1, cap = 1\<rparr> 1
          (heap_of [f64 1]) = (None, (heap_of [f64 1])(0 := NaN))"
  by (simp add: eval_simps dot.simps)

end
